(* ===== verification/Prelude.thy ===== *)
theory Prelude
  imports Main "HOL-Library.Word"
begin

text \<open>
  Shared vocabulary of the development: the type names of the model (bytes, object
  identifiers, serial numbers, times), the collections of rewrite rules the component
  theories register their equations in, and generic facts on lists, folds and words that
  several components use.
\<close>

section \<open>Types of the model\<close>

type_synonym byte = "8 word"

text \<open>An object identifier is kept as the content octets of its DER encoding.\<close>

type_synonym oid = "byte list"

text \<open>Serial numbers are 64-bit unsigned integers; times are seconds since the epoch.\<close>

type_synonym serial = "64 word"
type_synonym time = nat

named_theorems serve_simps "characteristic equations of the HTTP glue"
named_theorems tsa_simps "characteristic equations of the time-stamping engine"

section \<open>Folds of state transformers\<close>

text \<open>
  A run of a handler over a list of inputs: each input transforms the state and yields an
  output that the run discards. Both the HTTP glue and the engine are run this way.
\<close>

fun run_states :: "('a \<Rightarrow> 's \<Rightarrow> 'b \<times> 's) \<Rightarrow> 'a list \<Rightarrow> 's \<Rightarrow> 's" where
  "run_states h [] s = s"
| "run_states h (x # xs) s = run_states h xs (snd (h x s))"

lemma run_states_append [simp]:
  "run_states h (xs @ ys) s = run_states h ys (run_states h xs s)"
  by (induction xs arbitrary: s) simp_all

section \<open>Strictly increasing lists\<close>

lemma sorted_wrt_snoc [simp]:
  "sorted_wrt R (xs @ [x]) \<longleftrightarrow> sorted_wrt R xs \<and> (\<forall>y \<in> set xs. R y x)"
  by (simp add: sorted_wrt_append)

lemma strict_sorted_distinct:
  fixes xs :: "'a::linorder list"
  shows "sorted_wrt (<) xs \<Longrightarrow> distinct xs"
  by (simp add: strict_sorted_iff)

section \<open>Words\<close>

lemma word_less_max_unat_Suc:
  fixes w :: "'a::len word"
  shows "w \<noteq> - 1 \<Longrightarrow> unat (w + 1) = Suc (unat w)"
  by (simp add: add.commute add_eq_0_iff unatSuc)

lemma word_not_max_less_succ:
  fixes w :: "'a::len word"
  shows "w \<noteq> - 1 \<Longrightarrow> w < w + 1"
  by (meson inc_less_eq_triv_imp not_le)

lemma unat_minus_one_max: "unat (- 1 :: 'a::len word) = 2 ^ LENGTH('a) - 1"
proof -
  have h: "(- 1 :: 'a word) = of_nat (2 ^ LENGTH('a) - 1)"
    by (simp add: of_nat_diff)
  have "unat (of_nat (2 ^ LENGTH('a) - 1) :: 'a word) = 2 ^ LENGTH('a) - 1"
    by (simp only: unat_of_nat) simp
  then show ?thesis by (simp only: h)
qed

end
