(* ===== verification/Middleware.thy ===== *)
theory Middleware
  imports Prelude
begin

text \<open>
  The interface of the go-openapi runtime (\<open>github.com/go-openapi/runtime/middleware\<close>)
  that the generated operation calls. The library is not part of the repository, so only
  what \<open>ServeHTTP\<close> uses of it is named here, and its behaviour is left open:
  \<^item> \<open>MatchedRoute\<close> holds the one field the generated code reads, \<open>Produces\<close>, and
    \<open>Consumes\<close>, which the binder reads;
  \<^item> a \<open>Context\<close> is a record of the two functions the code calls that return values,
    \<open>RouteInfo\<close> and \<open>BindValidRequest\<close>, each an arbitrary function of its arguments;
  \<^item> \<open>Context.Respond\<close> writes to the response writer; the model records each call with its
    arguments, so the writer is the list of responses handed to it;
  \<^item> the dynamic type of the \<open>data interface{}\<close> argument of \<open>Respond\<close> is either an
    \<open>error\<close> or a \<open>middleware.Responder\<close>: the datatype \<open>respond_data\<close>.
  A Go pointer that may be nil is an \<open>option\<close>; dereferencing nil is the panic
  \<open>NilPointerDereference\<close>.
\<close>

record MatchedRoute =
  Produces :: "string list"
  Consumes :: "string list"

record ('req, 'p, 'e) Context =
  RouteInfo :: "'req \<Rightarrow> MatchedRoute option \<times> 'req option \<times> bool"
  BindValidRequest :: "'req \<Rightarrow> MatchedRoute option \<Rightarrow> 'p \<Rightarrow> 'e option \<times> 'p"

datatype ('e, 'res) respond_data = RespondError 'e | RespondResponder 'res

record ('req, 'e, 'res) respond_call =
  resp_request :: 'req
  resp_produces :: "string list"
  resp_route :: MatchedRoute
  resp_data :: "('e, 'res) respond_data"

datatype go_panic = NilPointerDereference

end
