(* ===== verification/Timestamp_Response.thy ===== *)
theory Timestamp_Response
  imports Middleware
begin

text \<open>
  The generated operation of \<^verbatim>\<open>src/pkg/generated/restapi/operations/timestamp/timestamp_response.go\<close>:
  the handler function type and its \<open>Handle\<close> method, the handler interface, the
  operation struct with its constructor, and \<open>ServeHTTP\<close>, which routes, binds, calls the
  handler and responds.

  The handler is a Go closure: whatever state it captures (for the time-stamping service,
  the serial counter and the signer) is made explicit as a world \<open>'s\<close> that the handler
  takes and returns. \<open>ServeHTTP\<close> acts on three things the caller can observe: the
  request value \<open>*r\<close> (overwritten at line 61), the response writer (the list of
  \<open>Respond\<close> calls) and the handler's world; all three are fields of \<open>serve_state\<close>.
  A panic does not roll anything back: the result is the panic, if any, and the state
  reached when it happened.
\<close>

section \<open>The handler function type and the handler interface\<close>

datatype ('p, 's, 'res) TimestampResponseHandlerFunc =
  TimestampResponseHandlerFunc "'p \<Rightarrow> 's \<Rightarrow> 'res \<times> 's"

primrec HandlerFunc_Handle ::
  "('p, 's, 'res) TimestampResponseHandlerFunc \<Rightarrow> 'p \<Rightarrow> 's \<Rightarrow> 'res \<times> 's" where
  "HandlerFunc_Handle (TimestampResponseHandlerFunc fn) params = fn params"

record ('p, 's, 'res) TimestampResponseHandler =
  Handle :: "'p \<Rightarrow> 's \<Rightarrow> 'res \<times> 's"

text \<open>
  Go satisfies the interface implicitly: a \<open>TimestampResponseHandlerFunc\<close> is a
  \<open>TimestampResponseHandler\<close> through its \<open>Handle\<close> method.
\<close>

definition HandlerFunc_handler ::
  "('p, 's, 'res) TimestampResponseHandlerFunc \<Rightarrow> ('p, 's, 'res) TimestampResponseHandler" where
  "HandlerFunc_handler fn = \<lparr>Handle = HandlerFunc_Handle fn\<rparr>"

section \<open>The operation and its constructor\<close>

record ('req, 'p, 'e, 's, 'res) TimestampResponse =
  Context :: "('req, 'p, 'e) Context"
  Handler :: "('p, 's, 'res) TimestampResponseHandler"

definition NewTimestampResponse ::
  "('req, 'p, 'e) Context \<Rightarrow> ('p, 's, 'res) TimestampResponseHandler
   \<Rightarrow> ('req, 'p, 'e, 's, 'res) TimestampResponse" where
  "NewTimestampResponse ctx handler = \<lparr>Context = ctx, Handler = handler\<rparr>"

section \<open>ServeHTTP\<close>

record ('req, 'e, 'res, 's) serve_state =
  request :: 'req
  written :: "('req, 'e, 'res) respond_call list"
  world :: 's

text \<open>
  Lines 59--62: ask the context for the matched route and the request carrying the
  route's context; the \<open>ok\<close> result is discarded, and when a request is returned it
  replaces \<open>*r\<close>.
\<close>

definition route_request :: "('req, 'p, 'e) Context \<Rightarrow> 'req \<Rightarrow> MatchedRoute option \<times> 'req" where
  "route_request ctx r =
     (case RouteInfo ctx r of
        (route, rCtx, _) \<Rightarrow> (route, case rCtx of None \<Rightarrow> r | Some r' \<Rightarrow> r'))"

text \<open>
  Lines 65 and 70: \<open>o.Context.Respond(rw, r, route.Produces, route, data)\<close>. The
  argument \<open>route.Produces\<close> dereferences \<open>route\<close> before the call.
\<close>

definition respond ::
  "MatchedRoute option \<Rightarrow> ('e, 'res) respond_data \<Rightarrow> ('req, 'e, 'res, 's) serve_state
   \<Rightarrow> go_panic option \<times> ('req, 'e, 'res, 's) serve_state" where
  "respond route data st =
     (case route of
        None \<Rightarrow> (Some NilPointerDereference, st)
      | Some rt \<Rightarrow>
          (None, st\<lparr>written := written st @
             [\<lparr>resp_request = request st, resp_produces = Produces rt,
               resp_route = rt, resp_data = data\<rparr>]\<rparr>))"

text \<open>
  The whole method. \<open>params0\<close> is the value \<open>NewTimestampResponseParams()\<close> returns
  (line 63; the constructor is generated into a sibling file): binding starts from it
  afresh on every call.
\<close>

definition ServeHTTP ::
  "('req, 'p, 'e, 's, 'res) TimestampResponse \<Rightarrow> 'p \<Rightarrow> ('req, 'e, 'res, 's) serve_state
   \<Rightarrow> go_panic option \<times> ('req, 'e, 'res, 's) serve_state" where
  "ServeHTTP tr params0 st =
     (case route_request (Context tr) (request st) of
        (route, r) \<Rightarrow>
          let st1 = st\<lparr>request := r\<rparr> in
          (case BindValidRequest (Context tr) r route params0 of
             (Some err, _) \<Rightarrow> respond route (RespondError err) st1
           | (None, Params) \<Rightarrow>
               (case Handle (Handler tr) Params (world st1) of
                  (res, w') \<Rightarrow> respond route (RespondResponder res) (st1\<lparr>world := w'\<rparr>))))"

section \<open>Serving a sequence of requests\<close>

text \<open>
  The HTTP server calls \<open>ServeHTTP\<close> once per request, each time with the request and a
  fresh response writer; only the handler's world carries over. Each request yields its
  outcome, the final value of \<open>*r\<close> and what was written.
\<close>

fun serve_all ::
  "('req, 'p, 'e, 's, 'res) TimestampResponse \<Rightarrow> 'p \<Rightarrow> 'req list \<Rightarrow> 's
   \<Rightarrow> (go_panic option \<times> 'req \<times> ('req, 'e, 'res) respond_call list) list \<times> 's" where
  "serve_all tr params0 [] w = ([], w)"
| "serve_all tr params0 (r # rs) w =
     (case ServeHTTP tr params0 \<lparr>request = r, written = [], world = w\<rparr> of
        (out, st) \<Rightarrow>
          (case serve_all tr params0 rs (world st) of
             (outs, w') \<Rightarrow> ((out, request st, written st) # outs, w')))"

text \<open>
  The abstract view of the operation: the parameters a request binds to, when binding
  succeeds. The handler sees exactly these, in request order.
\<close>

definition bound_params :: "('req, 'p, 'e) Context \<Rightarrow> 'p \<Rightarrow> 'req \<Rightarrow> 'p option" where
  "bound_params ctx params0 r =
     (case route_request ctx r of
        (route, r') \<Rightarrow>
          (case BindValidRequest ctx r' route params0 of
             (None, P) \<Rightarrow> Some P
           | (Some _, _) \<Rightarrow> None))"

section \<open>Test fixtures\<close>

text \<open>
  A concrete context for the witnesses: every request is routed, its route context marks
  it with the suffix \<open>#ctx\<close>, and binding fails for the request \<open>bad\<close> only; the
  handler answers with the length of its parameter and counts its calls.
\<close>

definition demo_route :: MatchedRoute where
  "demo_route = \<lparr>Produces = [''application/timestamp-reply''], Consumes = [''application/timestamp-query'']\<rparr>"
definition demo_ctx :: "(string, string, string) Context" where
  "demo_ctx = \<lparr>RouteInfo = (\<lambda>r. (Some demo_route, Some (r @ ''#ctx''), True)),
               BindValidRequest = (\<lambda>r route p. if r = ''bad#ctx'' then (Some ''bind error'', p) else (None, r))\<rparr>"
definition demo_ctx_noroute :: "(string, string, string) Context" where
  "demo_ctx_noroute = demo_ctx\<lparr>RouteInfo := (\<lambda>r. (None, None, False))\<rparr>"
definition demo_handler :: "string \<Rightarrow> nat \<Rightarrow> nat \<times> nat" where
  "demo_handler P w = (length P, Suc w)"
definition demo_op :: "(string, string, string, nat, nat) TimestampResponse" where
  "demo_op = NewTimestampResponse demo_ctx (HandlerFunc_handler (TimestampResponseHandlerFunc demo_handler))"

section \<open>Characteristic equations of ServeHTTP\<close>

lemma respond_None [serve_simps]: "respond None data st = (Some NilPointerDereference, st)"
  by (simp add: respond_def)

lemma respond_Some [serve_simps]:
  "respond (Some rt) data st =
     (None, st\<lparr>written := written st @
        [\<lparr>resp_request = request st, resp_produces = Produces rt, resp_route = rt, resp_data = data\<rparr>]\<rparr>)"
  by (simp add: respond_def)

lemma ServeHTTP_split:
  assumes "route_request (Context tr) (request st) = (route, r)"
  shows "ServeHTTP tr params0 st =
     (case BindValidRequest (Context tr) r route params0 of
        (Some err, _) \<Rightarrow> respond route (RespondError err) (st\<lparr>request := r\<rparr>)
      | (None, P) \<Rightarrow> respond route (RespondResponder (fst (Handle (Handler tr) P (world st))))
                        (st\<lparr>request := r, world := snd (Handle (Handler tr) P (world st))\<rparr>))"
  using assms by (simp add: ServeHTTP_def split: option.split prod.split)

lemma ServeHTTP_world:
  "world (snd (ServeHTTP tr params0 st)) =
     (case bound_params (Context tr) params0 (request st) of
        None \<Rightarrow> world st
      | Some P \<Rightarrow> snd (Handle (Handler tr) P (world st)))"
  by (cases "route_request (Context tr) (request st)")
     (auto simp: ServeHTTP_split bound_params_def respond_def split: option.split prod.split)

lemma ServeHTTP_request:
  "request (snd (ServeHTTP tr params0 st)) = snd (route_request (Context tr) (request st))"
  by (cases "route_request (Context tr) (request st)")
     (auto simp: ServeHTTP_split respond_def split: option.split prod.split)

lemma ServeHTTP_outcome:
  "fst (ServeHTTP tr params0 st) =
     (if fst (route_request (Context tr) (request st)) = None then Some NilPointerDereference else None)"
  by (cases "route_request (Context tr) (request st)")
     (auto simp: ServeHTTP_split respond_def split: option.split prod.split)

lemma ServeHTTP_written:
  "written (snd (ServeHTTP tr params0 st)) =
     written st @ (case fst (route_request (Context tr) (request st)) of
        None \<Rightarrow> []
      | Some rt \<Rightarrow> [\<lparr>resp_request = snd (route_request (Context tr) (request st)),
                     resp_produces = Produces rt, resp_route = rt,
                     resp_data = (case BindValidRequest (Context tr) (snd (route_request (Context tr) (request st)))
                                         (Some rt) params0 of
                                   (Some err, _) \<Rightarrow> RespondError err
                                 | (None, P) \<Rightarrow> RespondResponder (fst (Handle (Handler tr) P (world st))))\<rparr>])"
  by (cases "route_request (Context tr) (request st)")
     (auto simp: ServeHTTP_split respond_def split: option.split prod.split)

text \<open>
  C1. When the request is routed but binding its parameters fails, \<open>ServeHTTP\<close> never
  calls the handler: the handler's world is unchanged, and the one response written is
  the binding error, for the request as replaced by the route context, with the route's
  \<open>Produces\<close> list.
\<close>

theorem ServeHTTP_bind_failure:
  assumes "route_request (Context tr) (request st) = (Some rt, r)"
    and "BindValidRequest (Context tr) r (Some rt) params0 = (Some err, P)"
  shows "ServeHTTP tr params0 st =
    (None, st\<lparr>request := r,
              written := written st @ [\<lparr>resp_request = r, resp_produces = Produces rt,
                                         resp_route = rt, resp_data = RespondError err\<rparr>]\<rparr>)"
  using assms by (simp add: ServeHTTP_split respond_def)

text \<open>
  C2. When the request is routed and binds to parameters \<open>P\<close>, \<open>ServeHTTP\<close> calls the
  handler once, on \<open>P\<close> and the current world, keeps the world the handler returns, and
  writes exactly one response: the handler's responder.
\<close>

theorem ServeHTTP_bind_success:
  assumes "route_request (Context tr) (request st) = (Some rt, r)"
    and "BindValidRequest (Context tr) r (Some rt) params0 = (None, P)"
    and "Handle (Handler tr) P (world st) = (res, w')"
  shows "ServeHTTP tr params0 st =
    (None, st\<lparr>request := r, world := w',
              written := written st @ [\<lparr>resp_request = r, resp_produces = Produces rt,
                                         resp_route = rt, resp_data = RespondResponder res\<rparr>]\<rparr>)"
  using assms by (simp add: ServeHTTP_split respond_def)

text \<open>
  C5. The \<open>ok\<close> result of \<open>RouteInfo\<close> is discarded: when no route is returned,
  \<open>ServeHTTP\<close> panics dereferencing \<open>route.Produces\<close> and writes no response, and if
  binding succeeded the handler has already run and its effect on the world stays.
\<close>

theorem ServeHTTP_nil_route:
  assumes "fst (RouteInfo (Context tr) (request st)) = None"
  shows "fst (ServeHTTP tr params0 st) = Some NilPointerDereference
       \<and> written (snd (ServeHTTP tr params0 st)) = written st
       \<and> world (snd (ServeHTTP tr params0 st)) =
           (case bound_params (Context tr) params0 (request st) of
              None \<Rightarrow> world st | Some P \<Rightarrow> snd (Handle (Handler tr) P (world st)))"
proof -
  have "fst (route_request (Context tr) (request st)) = None"
    using assms by (cases "RouteInfo (Context tr) (request st)") (simp add: route_request_def)
  then show ?thesis
    by (simp add: ServeHTTP_outcome ServeHTTP_written ServeHTTP_world)
qed

text \<open>
  C3. After \<open>ServeHTTP\<close>, the caller's request \<open>*r\<close> is the request returned by
  \<open>RouteInfo\<close> when there is one, and the original otherwise; every response written
  refers to that request.
\<close>

theorem ServeHTTP_request_context:
  "request (snd (ServeHTTP tr params0 st)) =
      (case fst (snd (RouteInfo (Context tr) (request st))) of None \<Rightarrow> request st | Some r' \<Rightarrow> r')
   \<and> (\<forall>c \<in> set (drop (length (written st)) (written (snd (ServeHTTP tr params0 st)))).
        resp_request c = request (snd (ServeHTTP tr params0 st)))"
proof -
  obtain route r where rr: "route_request (Context tr) (request st) = (route, r)"
    by fastforce
  have "request (snd (ServeHTTP tr params0 st)) = r"
    using rr by (simp add: ServeHTTP_request)
  moreover have "r = (case fst (snd (RouteInfo (Context tr) (request st))) of
                        None \<Rightarrow> request st | Some r' \<Rightarrow> r')"
    using rr by (auto simp: route_request_def split: prod.splits)
  moreover have "\<forall>c \<in> set (drop (length (written st)) (written (snd (ServeHTTP tr params0 st)))).
                   resp_request c = r"
    using rr by (cases route) (simp_all add: ServeHTTP_written)
  ultimately show ?thesis by simp
qed

text \<open>
  C4. \<open>ServeHTTP\<close> returns normally exactly when \<open>RouteInfo\<close> found a route, and then
  it has written exactly one response; when it panics it has written none.
\<close>

theorem ServeHTTP_single_response:
  "(fst (ServeHTTP tr params0 st) = None) = (fst (RouteInfo (Context tr) (request st)) \<noteq> None)
   \<and> length (written (snd (ServeHTTP tr params0 st))) =
       length (written st) + (if fst (ServeHTTP tr params0 st) = None then 1 else 0)"
  by (auto simp: ServeHTTP_outcome ServeHTTP_written route_request_def split: prod.split option.split)

lemma serve_all_Cons_world:
  "snd (serve_all tr params0 (r # rs) w) =
     snd (serve_all tr params0 rs (world (snd (ServeHTTP tr params0 \<lparr>request = r, written = [], world = w\<rparr>))))"
  by (simp split: prod.split)

lemma HandlerFunc_Handle_eq [simp]: "HandlerFunc_Handle (TimestampResponseHandlerFunc fn) = fn"
  by (rule ext) simp

lemma serve_all_world:
  "snd (serve_all tr params0 rs w) =
     run_states (Handle (Handler tr)) (List.map_filter (bound_params (Context tr) params0) rs) w"
proof (induction rs arbitrary: w)
  case Nil
  then show ?case by simp
next
  case (Cons r rs)
  let ?st = "snd (ServeHTTP tr params0 \<lparr>request = r, written = [], world = w\<rparr>)"
  have "snd (serve_all tr params0 (r # rs) w) = snd (serve_all tr params0 rs (world ?st))"
    by (rule serve_all_Cons_world)
  also have "\<dots> = run_states (Handle (Handler tr))
                     (List.map_filter (bound_params (Context tr) params0) rs) (world ?st)"
    by (rule Cons.IH)
  finally show ?case
    by (simp add: ServeHTTP_world split: option.split)
qed

text \<open>
  C6. Refinement: serving any sequence of requests through an operation built by
  \<open>NewTimestampResponse\<close> from a handler function \<open>f\<close> changes the handler's world
  exactly as running \<open>f\<close> on the parameters of the requests that bind, in request order;
  requests that fail to bind, and panics, leave no other trace in it.
\<close>

theorem serve_all_refines_handler:
  "snd (serve_all (NewTimestampResponse ctx (HandlerFunc_handler (TimestampResponseHandlerFunc f)))
                  params0 rs w) =
     run_states f (List.map_filter (bound_params ctx params0) rs) w"
  by (simp add: serve_all_world NewTimestampResponse_def HandlerFunc_handler_def)

theorem ServeHTTP_bind_failure_witness:
  "ServeHTTP demo_op [] \<lparr>request = ''bad'', written = [], world = 5\<rparr> =
    (None, \<lparr>request = ''bad#ctx'',
            written = [\<lparr>resp_request = ''bad#ctx'', resp_produces = [''application/timestamp-reply''],
                        resp_route = demo_route, resp_data = RespondError ''bind error''\<rparr>], world = 5\<rparr>)"
  using ServeHTTP_bind_failure [of demo_op "\<lparr>request = ''bad'', written = [], world = 5\<rparr>"
          demo_route "''bad#ctx''" "[]" "''bind error''" "[]"]
  by (simp add: demo_op_def demo_ctx_def NewTimestampResponse_def route_request_def demo_route_def)

theorem ServeHTTP_bind_success_witness:
  "ServeHTTP demo_op [] \<lparr>request = ''ok'', written = [], world = 5\<rparr> =
    (None, \<lparr>request = ''ok#ctx'',
            written = [\<lparr>resp_request = ''ok#ctx'', resp_produces = [''application/timestamp-reply''],
                        resp_route = demo_route, resp_data = RespondResponder 6\<rparr>], world = 6\<rparr>)"
  using ServeHTTP_bind_success [of demo_op "\<lparr>request = ''ok'', written = [], world = 5\<rparr>"
          demo_route "''ok#ctx''" "[]" "''ok#ctx''" 6 6]
  by (simp add: demo_op_def demo_ctx_def NewTimestampResponse_def route_request_def demo_route_def
                HandlerFunc_handler_def demo_handler_def)

theorem ServeHTTP_nil_route_witness:
  "ServeHTTP (NewTimestampResponse demo_ctx_noroute (HandlerFunc_handler (TimestampResponseHandlerFunc demo_handler)))
      [] \<lparr>request = ''ok'', written = [], world = 5\<rparr> = (Some NilPointerDereference, \<lparr>request = ''ok'', written = [], world = 6\<rparr>)"
proof -
  let ?tr = "NewTimestampResponse demo_ctx_noroute (HandlerFunc_handler (TimestampResponseHandlerFunc demo_handler))"
  let ?st = "\<lparr>request = ''ok'', written = [], world = (5::nat)\<rparr> :: (string, string, nat, nat) serve_state"
  have "request (snd (ServeHTTP ?tr [] ?st)) = ''ok''"
    by (simp add: ServeHTTP_request NewTimestampResponse_def demo_ctx_noroute_def route_request_def)
  then show ?thesis
    using ServeHTTP_nil_route [of ?tr ?st "[]"]
    by (cases "ServeHTTP ?tr [] ?st")
       (simp add: NewTimestampResponse_def demo_ctx_noroute_def demo_ctx_def bound_params_def
                  route_request_def HandlerFunc_handler_def demo_handler_def)
qed

theorem ServeHTTP_request_context_witness:
  "request (snd (ServeHTTP demo_op [] \<lparr>request = ''ok'', written = [], world = 5\<rparr>)) = ''ok#ctx''
   \<and> map resp_request (written (snd (ServeHTTP demo_op [] \<lparr>request = ''ok'', written = [], world = 5\<rparr>)))
       = [''ok#ctx'']"
proof -
  let ?st = "\<lparr>request = ''ok'', written = [], world = (5::nat)\<rparr> :: (string, string, nat, nat) serve_state"
  have w: "map resp_request (written (snd (ServeHTTP demo_op [] ?st))) = [''ok#ctx'']"
    by (simp add: ServeHTTP_written demo_op_def demo_ctx_def NewTimestampResponse_def route_request_def)
  show ?thesis
    using ServeHTTP_request_context [of demo_op "[]" ?st] w
    by (simp add: demo_op_def demo_ctx_def NewTimestampResponse_def)
qed

end
