(* ===== verification/Tsp_Types.thy ===== *)
theory Tsp_Types
  imports Prelude
begin

text \<open>
  The data model of the Time-Stamp Protocol engine (RFC 3161) that the operation's handler
  invokes, after spec section 3. The engine is not among the repository's sources under
  \<open>src/\<close>: every type here follows the spec's data model and the RFC's ASN.1 field names.
  Object identifiers are their DER content octets; digests and names are byte strings;
  times are seconds; a serial number is a 64-bit word.
\<close>

section \<open>Requests\<close>

record AlgorithmIdentifier =
  algorithm :: oid
  parameters :: "(byte \<times> byte list) option"

record MessageImprint =
  hashAlgorithm :: AlgorithmIdentifier
  hashedMessage :: "byte list"

record Extension =
  extnID :: oid
  critical :: bool
  extnValue :: "byte list"

record TimeStampReq =
  req_version :: int
  messageImprint :: MessageImprint
  reqPolicy :: "oid option"
  nonce :: "int option"
  certReq :: bool
  extensions :: "Extension list"

section \<open>Tokens, envelopes and responses\<close>

record TSTInfo =
  tst_version :: int
  policy :: oid
  tst_imprint :: MessageImprint
  serialNumber :: serial
  genTime :: time
  accuracy :: "nat option"
  ordering :: bool
  tst_nonce :: "int option"
  tsaName :: "byte list option"
  tst_extensions :: "Extension list"

record SignedEnvelope =
  content :: TSTInfo
  encodedContent :: "byte list"
  signature :: "byte list"
  signatureAlgorithm :: oid
  certificates :: "byte list list"

datatype PKIStatus =
  Granted | GrantedWithMods | Rejection | Waiting | RevocationWarning | RevocationNotification

datatype PKIFailureInfo =
  BadAlg | BadRequest | BadDataFormat | TimeNotAvailable | UnacceptedPolicy
  | UnacceptedExtension | AddInfoNotAvailable | SystemFailure

record TimeStampResp =
  status :: PKIStatus
  failInfo :: "PKIFailureInfo option"
  timeStampToken :: "SignedEnvelope option"

section \<open>Configuration, signing identity and codec interface\<close>

text \<open>
  The authority's configuration: the protocol version it speaks, the allow-listed hash
  algorithms with their digest sizes, the policies it supports, its default policy and
  whether it may substitute the default for an unsupported requested policy, the
  extensions it understands, the accuracy of its clock, its name, and the allow-listed
  signature algorithms, the first of which it uses.
\<close>

record tsa_config =
  supported_version :: int
  hash_algs :: "(oid \<times> nat) list"
  policies :: "oid list"
  default_policy :: "oid option"
  allow_policy_substitution :: bool
  supported_extensions :: "oid list"
  clock_accuracy :: "nat option"
  tsa_name :: "byte list option"
  sig_algs :: "oid list"

text \<open>
  The signing identity the key/certificate provider hands out: the signing capability
  (a function from the bytes to sign to the signature), the certificate chain and the
  validity window of the signing certificate.
\<close>

record SigningIdentity =
  sign_fn :: "byte list \<Rightarrow> byte list"
  cert_chain :: "byte list list"
  not_before :: time
  not_after :: time

text \<open>
  The codec as the engine uses it: decoding a request body, and the canonical encoding
  of a token that the signature covers. The engine's properties hold for any codec.
\<close>

record tsp_codec =
  decode_req :: "byte list \<Rightarrow> TimeStampReq option"
  encode_tst :: "TSTInfo \<Rightarrow> byte list"

section \<open>Object identifiers of the examples\<close>

definition oid_sha256 :: oid where
  "oid_sha256 = [0x60, 0x86, 0x48, 0x01, 0x65, 0x03, 0x04, 0x02, 0x01]"

definition oid_sha384 :: oid where
  "oid_sha384 = [0x60, 0x86, 0x48, 0x01, 0x65, 0x03, 0x04, 0x02, 0x02]"

definition oid_sha512 :: oid where
  "oid_sha512 = [0x60, 0x86, 0x48, 0x01, 0x65, 0x03, 0x04, 0x02, 0x03]"

definition oid_md2 :: oid where
  "oid_md2 = [0x2A, 0x86, 0x48, 0x86, 0xF7, 0x0D, 0x02, 0x02]"

definition oid_ecdsa_sha256 :: oid where
  "oid_ecdsa_sha256 = [0x2A, 0x86, 0x48, 0xCE, 0x3D, 0x04, 0x03, 0x02]"

end
