(* ===== verification/Validator.thy ===== *)
theory Validator
  imports Tsp_Types
begin

text \<open>
  The request validator of spec section 4.2: four checks in order, the first failure
  wins, and each failure has its own reason, which the response carries as a distinct
  PKIFailureInfo. Validation reads only the configuration and the request.
\<close>

section \<open>Definitions\<close>

datatype reject_reason =
  RejVersion | RejHashAlgorithm | RejDigestLength | RejPolicy | RejCriticalExtension

text \<open>Check 3: a requested policy is supported, or may be replaced by the default; an absent one needs a default.\<close>

definition policy_acceptable :: "tsa_config \<Rightarrow> oid option \<Rightarrow> bool" where
  "policy_acceptable cfg p =
     (case p of
        None \<Rightarrow> default_policy cfg \<noteq> None
      | Some q \<Rightarrow> q \<in> set (policies cfg)
                 \<or> (allow_policy_substitution cfg \<and> default_policy cfg \<noteq> None))"

text \<open>Check 4: an extension the authority does not understand is acceptable only if it is not critical.\<close>

definition unsupported_critical :: "tsa_config \<Rightarrow> Extension list \<Rightarrow> bool" where
  "unsupported_critical cfg exts =
     list_ex (\<lambda>e. critical e \<and> extnID e \<notin> set (supported_extensions cfg)) exts"

definition validate_request :: "tsa_config \<Rightarrow> TimeStampReq \<Rightarrow> reject_reason + unit" where
  "validate_request cfg req =
     (if req_version req \<noteq> supported_version cfg then Inl RejVersion
      else case map_of (hash_algs cfg) (algorithm (hashAlgorithm (messageImprint req))) of
        None \<Rightarrow> Inl RejHashAlgorithm
      | Some n \<Rightarrow>
          if length (hashedMessage (messageImprint req)) \<noteq> n then Inl RejDigestLength
          else if \<not> policy_acceptable cfg (reqPolicy req) then Inl RejPolicy
          else if unsupported_critical cfg (extensions req) then Inl RejCriticalExtension
          else Inr ())"

primrec failure_of_reason :: "reject_reason \<Rightarrow> PKIFailureInfo" where
  "failure_of_reason RejVersion = BadRequest"
| "failure_of_reason RejHashAlgorithm = BadAlg"
| "failure_of_reason RejDigestLength = BadDataFormat"
| "failure_of_reason RejPolicy = UnacceptedPolicy"
| "failure_of_reason RejCriticalExtension = UnacceptedExtension"

section \<open>Properties\<close>

text \<open>A request passes exactly when it satisfies all four checks.\<close>

lemma validate_request_ok_iff [tsa_simps]:
  "validate_request cfg req = Inr () \<longleftrightarrow>
     req_version req = supported_version cfg
   \<and> map_of (hash_algs cfg) (algorithm (hashAlgorithm (messageImprint req)))
       = Some (length (hashedMessage (messageImprint req)))
   \<and> policy_acceptable cfg (reqPolicy req)
   \<and> \<not> unsupported_critical cfg (extensions req)"
  by (auto simp: validate_request_def split: option.splits)

text \<open>An unlisted hash algorithm is rejected with \<open>RejHashAlgorithm\<close> whenever the version is right.\<close>

lemma validate_request_unlisted_hash [tsa_simps]:
  "req_version req = supported_version cfg \<Longrightarrow>
   map_of (hash_algs cfg) (algorithm (hashAlgorithm (messageImprint req))) = None \<Longrightarrow>
   validate_request cfg req = Inl RejHashAlgorithm"
  by (simp add: validate_request_def)

lemma failure_of_reason_inj: "inj failure_of_reason"
proof (rule injI)
  fix a b
  show "failure_of_reason a = failure_of_reason b \<Longrightarrow> a = b"
    by (cases a; cases b) simp_all
qed

lemma failure_of_reason_not_system [simp]: "failure_of_reason r \<noteq> SystemFailure"
  by (cases r) simp_all

end
