(* ===== verification/Token.thy ===== *)
theory Token
  imports Validator
begin

text \<open>
  The token builder (spec section 4.4), the policy negotiation of the design notes, and
  the signer (section 4.5). The builder copies the message imprint and the nonce from the
  request verbatim, takes the time it is given, and chooses the policy; the signer checks
  the signing certificate's validity window against the token's time and only then hands
  the canonical encoding of the token to the signing capability.
\<close>

section \<open>Policy negotiation\<close>

text \<open>
  The outcome of negotiation. The spec names three outcomes; a request that names no
  policy gets the default without any change to what it asked, which is the fourth.
\<close>

datatype policy_outcome =
  RequestedPolicyHonored oid
| DefaultPolicyApplied oid
| DefaultPolicySubstituted oid
| PolicyRejected

definition negotiate_policy :: "tsa_config \<Rightarrow> oid option \<Rightarrow> policy_outcome" where
  "negotiate_policy cfg p =
     (case p of
        None \<Rightarrow> (case default_policy cfg of None \<Rightarrow> PolicyRejected | Some d \<Rightarrow> DefaultPolicyApplied d)
      | Some q \<Rightarrow>
          if q \<in> set (policies cfg) then RequestedPolicyHonored q
          else if allow_policy_substitution cfg then
            (case default_policy cfg of None \<Rightarrow> PolicyRejected | Some d \<Rightarrow> DefaultPolicySubstituted d)
          else PolicyRejected)"

primrec outcome_policy :: "policy_outcome \<Rightarrow> oid option" where
  "outcome_policy (RequestedPolicyHonored q) = Some q"
| "outcome_policy (DefaultPolicyApplied d) = Some d"
| "outcome_policy (DefaultPolicySubstituted d) = Some d"
| "outcome_policy PolicyRejected = None"

section \<open>Token builder\<close>

datatype build_error = NoPolicy

text \<open>
  The token for a validated request, its serial and the current time. The ordering flag
  is set: tokens with equal times are ordered by their serial numbers.
\<close>

definition build_token ::
  "tsa_config \<Rightarrow> TimeStampReq \<Rightarrow> serial \<Rightarrow> time \<Rightarrow> build_error + TSTInfo \<times> policy_outcome" where
  "build_token cfg req sn now =
     (let outcome = negotiate_policy cfg (reqPolicy req) in
      case outcome_policy outcome of
        None \<Rightarrow> Inl NoPolicy
      | Some pol \<Rightarrow>
          Inr (\<lparr>tst_version = 1, policy = pol, tst_imprint = messageImprint req,
                 serialNumber = sn, genTime = now, accuracy = clock_accuracy cfg,
                 ordering = True, tst_nonce = nonce req, tsaName = tsa_name cfg,
                 tst_extensions = []\<rparr>, outcome))"

section \<open>Signer\<close>

datatype signing_error = ExpiredSigner | NoSignatureAlgorithm

definition valid_at :: "SigningIdentity \<Rightarrow> time \<Rightarrow> bool" where
  "valid_at ident t \<longleftrightarrow> not_before ident \<le> t \<and> t \<le> not_after ident"

text \<open>
  Signing: the certificate must be valid at the token's time, and the first allow-listed
  signature algorithm is used; the caller chooses nothing but whether the chain is
  embedded. The signature covers the canonical encoding \<open>enc tok\<close>.
\<close>

definition sign_token ::
  "tsa_config \<Rightarrow> (TSTInfo \<Rightarrow> byte list) \<Rightarrow> SigningIdentity \<Rightarrow> TSTInfo \<Rightarrow> bool
   \<Rightarrow> signing_error + SignedEnvelope" where
  "sign_token cfg enc ident tok include_chain =
     (if \<not> valid_at ident (genTime tok) then Inl ExpiredSigner
      else case sig_algs cfg of
        [] \<Rightarrow> Inl NoSignatureAlgorithm
      | alg # _ \<Rightarrow>
          (let payload = enc tok in
           Inr \<lparr>content = tok, encodedContent = payload, signature = sign_fn ident payload,
                signatureAlgorithm = alg,
                certificates = (if include_chain then cert_chain ident else [])\<rparr>))"

section \<open>Properties\<close>

lemma negotiate_policy_acceptable:
  "policy_acceptable cfg p \<longleftrightarrow> negotiate_policy cfg p \<noteq> PolicyRejected"
  by (auto simp: policy_acceptable_def negotiate_policy_def split: option.splits)

lemma outcome_policy_None [simp]: "outcome_policy oc = None \<longleftrightarrow> oc = PolicyRejected"
  by (cases oc) simp_all

lemma build_token_ok:
  assumes "policy_acceptable cfg (reqPolicy req)"
  shows "\<exists>pol. outcome_policy (negotiate_policy cfg (reqPolicy req)) = Some pol
     \<and> build_token cfg req sn now =
       Inr (\<lparr>tst_version = 1, policy = pol, tst_imprint = messageImprint req,
              serialNumber = sn, genTime = now, accuracy = clock_accuracy cfg,
              ordering = True, tst_nonce = nonce req, tsaName = tsa_name cfg,
              tst_extensions = []\<rparr>, negotiate_policy cfg (reqPolicy req))"
proof -
  from assms have "negotiate_policy cfg (reqPolicy req) \<noteq> PolicyRejected"
    by (simp add: negotiate_policy_acceptable)
  then obtain pol where "outcome_policy (negotiate_policy cfg (reqPolicy req)) = Some pol"
    by (cases "outcome_policy (negotiate_policy cfg (reqPolicy req))") simp_all
  then show ?thesis
    by (simp add: build_token_def)
qed

lemma build_token_Inr [tsa_simps]:
  "build_token cfg req sn now = Inr (tok, oc) \<Longrightarrow>
     tst_imprint tok = messageImprint req \<and> tst_nonce tok = nonce req
   \<and> serialNumber tok = sn \<and> genTime tok = now \<and> oc = negotiate_policy cfg (reqPolicy req)
   \<and> outcome_policy oc = Some (policy tok)"
  by (auto simp: build_token_def Let_def split: option.splits)

lemma sign_token_Inr [tsa_simps]:
  "sign_token cfg enc ident tok inc = Inr env \<Longrightarrow>
     content env = tok \<and> valid_at ident (genTime tok)
   \<and> encodedContent env = enc tok \<and> signature env = sign_fn ident (enc tok)
   \<and> signatureAlgorithm env \<in> set (sig_algs cfg)
   \<and> certificates env = (if inc then cert_chain ident else [])"
  by (auto simp: sign_token_def Let_def split: if_splits list.splits)

lemma sign_token_expired [tsa_simps]:
  "\<not> valid_at ident (genTime tok) \<Longrightarrow> sign_token cfg enc ident tok inc = Inl ExpiredSigner"
  by (simp add: sign_token_def)

end
