(* ===== verification/Serial_Allocator.thy ===== *)
theory Serial_Allocator
  imports Tsp_Types
begin

text \<open>
  The serial allocator of spec section 4.3: the only state shared across requests. It
  holds the last serial number issued, as a 64-bit word. \<open>next_serial\<close> issues the
  successor and refuses, rather than wraps, when the counter is at its maximum;
  construction from the persistent counter fails when that state cannot be read, so the
  service never restarts from zero.
\<close>

section \<open>Definitions\<close>

record SerialAllocator =
  last_serial :: serial

datatype alloc_error = CounterUnavailable | SerialSpaceExhausted

definition new_allocator :: "serial option \<Rightarrow> alloc_error + SerialAllocator" where
  "new_allocator persisted =
     (case persisted of
        None \<Rightarrow> Inl CounterUnavailable
      | Some s \<Rightarrow> Inr \<lparr>last_serial = s\<rparr>)"

definition next_serial :: "SerialAllocator \<Rightarrow> alloc_error + (serial \<times> SerialAllocator)" where
  "next_serial a =
     (if last_serial a = - 1 then Inl SerialSpaceExhausted
      else let s = last_serial a + 1 in Inr (s, a\<lparr>last_serial := s\<rparr>))"

text \<open>A run of allocations: the serials issued, in order, until the first refusal.\<close>

fun allocate_n :: "nat \<Rightarrow> SerialAllocator \<Rightarrow> serial list \<times> SerialAllocator" where
  "allocate_n 0 a = ([], a)"
| "allocate_n (Suc n) a =
     (case next_serial a of
        Inl _ \<Rightarrow> ([], a)
      | Inr (s, a') \<Rightarrow> (case allocate_n n a' of (ss, a'') \<Rightarrow> (s # ss, a'')))"

section \<open>Properties of one allocation\<close>

lemma next_serial_Inr [tsa_simps]:
  "next_serial a = Inr (s, a') \<longleftrightarrow>
     last_serial a \<noteq> - 1 \<and> s = last_serial a + 1 \<and> a' = a\<lparr>last_serial := s\<rparr>"
  by (auto simp: next_serial_def Let_def)

lemma next_serial_Inl [tsa_simps]:
  "next_serial a = Inl e \<longleftrightarrow> last_serial a = - 1 \<and> e = SerialSpaceExhausted"
  by (auto simp: next_serial_def Let_def)

text \<open>An issued serial is the counter plus one, without wrap-around, and becomes the counter.\<close>

lemma next_serial_unat:
  assumes "next_serial a = Inr (s, a')"
  shows "unat s = Suc (unat (last_serial a)) \<and> last_serial a' = s \<and> last_serial a < s"
  using assms word_less_max_unat_Suc [of "last_serial a"]
        word_not_max_less_succ [of "last_serial a"]
  by (auto simp: next_serial_Inr)

section \<open>Properties of a run\<close>

lemma allocate_n_bounds:
  "allocate_n n a = (ss, a') \<Longrightarrow>
     sorted_wrt (<) ss \<and> (\<forall>s \<in> set ss. last_serial a < s \<and> s \<le> last_serial a')
     \<and> last_serial a \<le> last_serial a'"
proof (induction n arbitrary: a ss a')
  case 0
  then show ?case by simp
next
  case (Suc n)
  show ?case
  proof (cases "next_serial a")
    case (Inl e)
    with Suc.prems show ?thesis by simp
  next
    case (Inr p)
    obtain s a1 where p: "p = (s, a1)" by fastforce
    obtain ss1 a2 where r: "allocate_n n a1 = (ss1, a2)" by fastforce
    have step: "last_serial a < s \<and> last_serial a1 = s"
      using next_serial_unat [of a s a1] Inr p by simp
    from Suc.IH [OF r] have ih: "sorted_wrt (<) ss1 \<and> (\<forall>t \<in> set ss1. s < t \<and> t \<le> last_serial a2)
        \<and> s \<le> last_serial a2"
      using step by simp
    have "ss = s # ss1" and "a' = a2"
      using Suc.prems Inr p r by simp_all
    with ih step show ?thesis
      by auto
  qed
qed

lemma allocate_n_length:
  "unat (last_serial a) + n < 2 ^ 64 \<Longrightarrow> length (fst (allocate_n n a)) = n"
proof (induction n arbitrary: a)
  case 0
  then show ?case by simp
next
  case (Suc n)
  have ne: "last_serial a \<noteq> - 1"
  proof
    assume "last_serial a = - 1"
    then have "unat (last_serial a) = 2 ^ 64 - 1" by (simp add: unat_minus_one_max)
    with Suc.prems show False by simp
  qed
  let ?s = "last_serial a + 1"
  have u: "unat ?s = Suc (unat (last_serial a))"
    using ne by (rule word_less_max_unat_Suc)
  have "unat (last_serial (a\<lparr>last_serial := ?s\<rparr>)) + n < 2 ^ 64"
    using Suc.prems u by simp
  then have "length (fst (allocate_n n (a\<lparr>last_serial := ?s\<rparr>))) = n"
    by (rule Suc.IH)
  with ne show ?case
    by (cases "allocate_n n (a\<lparr>last_serial := ?s\<rparr>)") (simp add: next_serial_def Let_def)
qed

end
