(* ===== verification/Tsa_Engine.thy ===== *)
theory Tsa_Engine
  imports Token Serial_Allocator
begin

text \<open>
  The engine that handles one request (spec sections 2 and 4.6). It is given twice:
  \<^item> as the lifecycle state machine of section 4.6, one step per stage, run with fuel until
    it reaches a terminal state (\<open>tsr_step\<close>, \<open>tsr_run\<close>, \<open>tsr_response\<close>);
  \<^item> as the direct composition of section 2, decode, validate, allocate, build, sign,
    assemble (\<open>process_request\<close>), the function the handler calls.
  The world is the state the handler closure captures: the serial allocator, the clock
  reading, the signing identity the provider currently hands out, and the log of payloads
  handed to the signing capability (what the key-management collaborator observes).
\<close>

section \<open>World and lifecycle states\<close>

record tsa_world =
  allocator :: SerialAllocator
  clock :: time
  identity :: SigningIdentity
  signing_log :: "byte list list"

datatype tsr_state =
  Received "byte list"
| Validating TimeStampReq
| Building TimeStampReq
| Signing TimeStampReq TSTInfo policy_outcome
| Rejected PKIFailureInfo
| BuildFailed PKIFailureInfo
| SignFailed PKIFailureInfo
| Issued SignedEnvelope policy_outcome

fun terminal :: "tsr_state \<Rightarrow> bool" where
  "terminal (Rejected _) = True"
| "terminal (BuildFailed _) = True"
| "terminal (SignFailed _) = True"
| "terminal (Issued _ _) = True"
| "terminal _ = False"

section \<open>Response assembly\<close>

definition reject_resp :: "PKIFailureInfo \<Rightarrow> TimeStampResp" where
  "reject_resp f = \<lparr>status = Rejection, failInfo = Some f, timeStampToken = None\<rparr>"

fun grant_status :: "policy_outcome \<Rightarrow> PKIStatus" where
  "grant_status (DefaultPolicySubstituted _) = GrantedWithMods"
| "grant_status _ = Granted"

definition grant_resp :: "policy_outcome \<Rightarrow> SignedEnvelope \<Rightarrow> TimeStampResp" where
  "grant_resp oc env = \<lparr>status = grant_status oc, failInfo = None, timeStampToken = Some env\<rparr>"

fun tsr_response :: "tsr_state \<Rightarrow> TimeStampResp option" where
  "tsr_response (Rejected f) = Some (reject_resp f)"
| "tsr_response (BuildFailed f) = Some (reject_resp f)"
| "tsr_response (SignFailed f) = Some (reject_resp f)"
| "tsr_response (Issued env oc) = Some (grant_resp oc env)"
| "tsr_response _ = None"

section \<open>The lifecycle state machine\<close>

text \<open>
  One stage per step. Allocation and building happen together in the \<open>Building\<close> stage,
  after validation; a failure of the allocator is a system failure of that stage, a
  builder failure (no policy) a rejection. The signing capability is invoked, and logged,
  only when the signer succeeds.
\<close>

fun tsr_step :: "tsa_config \<Rightarrow> tsp_codec \<Rightarrow> tsr_state \<Rightarrow> tsa_world \<Rightarrow> tsr_state \<times> tsa_world" where
  "tsr_step cfg cd (Received bs) w =
     (case decode_req cd bs of
        None \<Rightarrow> (Rejected BadDataFormat, w)
      | Some req \<Rightarrow> (Validating req, w))"
| "tsr_step cfg cd (Validating req) w =
     (case validate_request cfg req of
        Inl r \<Rightarrow> (Rejected (failure_of_reason r), w)
      | Inr _ \<Rightarrow> (Building req, w))"
| "tsr_step cfg cd (Building req) w =
     (case next_serial (allocator w) of
        Inl _ \<Rightarrow> (BuildFailed SystemFailure, w)
      | Inr (sn, a') \<Rightarrow>
          (case build_token cfg req sn (clock w) of
             Inl _ \<Rightarrow> (BuildFailed UnacceptedPolicy, w\<lparr>allocator := a'\<rparr>)
           | Inr (tok, oc) \<Rightarrow> (Signing req tok oc, w\<lparr>allocator := a'\<rparr>)))"
| "tsr_step cfg cd (Signing req tok oc) w =
     (case sign_token cfg (encode_tst cd) (identity w) tok (certReq req) of
        Inl _ \<Rightarrow> (SignFailed SystemFailure, w)
      | Inr env \<Rightarrow> (Issued env oc, w\<lparr>signing_log := signing_log w @ [encodedContent env]\<rparr>))"
| "tsr_step cfg cd s w = (s, w)"

fun tsr_run :: "nat \<Rightarrow> tsa_config \<Rightarrow> tsp_codec \<Rightarrow> tsr_state \<Rightarrow> tsa_world \<Rightarrow> tsr_state \<times> tsa_world" where
  "tsr_run 0 cfg cd s w = (s, w)"
| "tsr_run (Suc n) cfg cd s w =
     (if terminal s then (s, w)
      else case tsr_step cfg cd s w of (s', w') \<Rightarrow> tsr_run n cfg cd s' w')"

text \<open>How many steps a state is from the end: the fuel that suffices.\<close>

fun tsr_rank :: "tsr_state \<Rightarrow> nat" where
  "tsr_rank (Received _) = 4"
| "tsr_rank (Validating _) = 3"
| "tsr_rank (Building _) = 2"
| "tsr_rank (Signing _ _ _) = 1"
| "tsr_rank _ = 0"

section \<open>The pipeline\<close>

text \<open>
  Section 2's control flow: decode, validate, then allocate a serial, build and sign;
  a failure at any stage is a status-only response, and the signer is never reached from
  a failure.
\<close>

definition process_request ::
  "tsa_config \<Rightarrow> tsp_codec \<Rightarrow> byte list \<Rightarrow> tsa_world \<Rightarrow> TimeStampResp \<times> tsa_world" where
  "process_request cfg cd bs w =
     (case decode_req cd bs of
        None \<Rightarrow> (reject_resp BadDataFormat, w)
      | Some req \<Rightarrow>
          (case validate_request cfg req of
             Inl r \<Rightarrow> (reject_resp (failure_of_reason r), w)
           | Inr _ \<Rightarrow>
               (case next_serial (allocator w) of
                  Inl _ \<Rightarrow> (reject_resp SystemFailure, w)
                | Inr (sn, a') \<Rightarrow>
                    let w1 = w\<lparr>allocator := a'\<rparr> in
                    (case build_token cfg req sn (clock w) of
                       Inl _ \<Rightarrow> (reject_resp UnacceptedPolicy, w1)
                     | Inr (tok, oc) \<Rightarrow>
                         (case sign_token cfg (encode_tst cd) (identity w1) tok (certReq req) of
                            Inl _ \<Rightarrow> (reject_resp SystemFailure, w1)
                          | Inr env \<Rightarrow>
                              (grant_resp oc env,
                               w1\<lparr>signing_log := signing_log w1 @ [encodedContent env]\<rparr>))))))"

section \<open>The handler\<close>

text \<open>
  The bound parameters of the operation: the body of the POST, the DER-encoded
  time-stamp query. The handler runs the pipeline on it; its responder is the
  time-stamp response.
\<close>

record TimestampResponseParams =
  Request :: "byte list"

definition tsa_handler ::
  "tsa_config \<Rightarrow> tsp_codec \<Rightarrow> TimestampResponseParams \<Rightarrow> tsa_world \<Rightarrow> TimeStampResp \<times> tsa_world" where
  "tsa_handler cfg cd params w = process_request cfg cd (Request params) w"

text \<open>
  Service start-up: the world is built from the persisted counter, the clock and the
  identity; when the counter cannot be read, start-up fails.
\<close>

definition start_service ::
  "serial option \<Rightarrow> time \<Rightarrow> SigningIdentity \<Rightarrow> alloc_error + tsa_world" where
  "start_service persisted now ident =
     (case new_allocator persisted of
        Inl e \<Rightarrow> Inl e
      | Inr a \<Rightarrow> Inr \<lparr>allocator = a, clock = now, identity = ident, signing_log = []\<rparr>)"

section \<open>Termination of the lifecycle\<close>

text \<open>Every non-terminal step moves one stage closer to the end, so four steps always suffice.\<close>

lemma tsr_step_rank:
  "\<not> terminal s \<Longrightarrow> tsr_rank (fst (tsr_step cfg cd s w)) < tsr_rank s"
proof (cases s)
  case (Building req)
  then show ?thesis
    by (simp split: sum.split prod.split)
qed (simp_all split: option.split sum.split prod.split)

lemma tsr_run_terminal_id: "terminal s \<Longrightarrow> tsr_run n cfg cd s w = (s, w)"
  by (cases n) simp_all

lemma tsr_run_terminal:
  "tsr_rank s \<le> n \<Longrightarrow> terminal (fst (tsr_run n cfg cd s w))"
proof (induction n arbitrary: s w)
  case 0
  then show ?case by (cases s) simp_all
next
  case (Suc n)
  show ?case
  proof (cases "terminal s")
    case True
    then show ?thesis by simp
  next
    case False
    obtain s' w' where st: "tsr_step cfg cd s w = (s', w')" by fastforce
    have "tsr_rank s' < tsr_rank s"
      using tsr_step_rank [OF False, of cfg cd w] st by simp
    with Suc.prems have "tsr_rank s' \<le> n" by simp
    then have "terminal (fst (tsr_run n cfg cd s' w'))" by (rule Suc.IH)
    with False st show ?thesis by simp
  qed
qed

section \<open>The lifecycle and the pipeline agree\<close>

lemma tsr_run_Received:
  "tsr_run (Suc n) cfg cd (Received bs) w =
     (case decode_req cd bs of
        None \<Rightarrow> (Rejected BadDataFormat, w)
      | Some req \<Rightarrow> tsr_run n cfg cd (Validating req) w)"
  by (simp add: tsr_run_terminal_id split: option.split)

lemma tsr_run_Validating:
  "tsr_run (Suc n) cfg cd (Validating req) w =
     (case validate_request cfg req of
        Inl r \<Rightarrow> (Rejected (failure_of_reason r), w)
      | Inr _ \<Rightarrow> tsr_run n cfg cd (Building req) w)"
  by (simp add: tsr_run_terminal_id split: sum.split)

lemma tsr_run_Building:
  "tsr_run (Suc n) cfg cd (Building req) w =
     (case next_serial (allocator w) of
        Inl _ \<Rightarrow> (BuildFailed SystemFailure, w)
      | Inr (sn, a') \<Rightarrow>
          (case build_token cfg req sn (clock w) of
             Inl _ \<Rightarrow> (BuildFailed UnacceptedPolicy, w\<lparr>allocator := a'\<rparr>)
           | Inr (tok, oc) \<Rightarrow> tsr_run n cfg cd (Signing req tok oc) (w\<lparr>allocator := a'\<rparr>)))"
  by (simp add: tsr_run_terminal_id split: sum.split prod.split)

lemma tsr_run_Signing:
  "tsr_run (Suc n) cfg cd (Signing req tok oc) w = tsr_step cfg cd (Signing req tok oc) w"
  by (simp add: tsr_run_terminal_id split: sum.split)

lemmas tsr_run_stages = tsr_run_Received tsr_run_Validating tsr_run_Building tsr_run_Signing

lemma tsr_run_process_request:
  "map_prod tsr_response id (tsr_run 4 cfg cd (Received bs) w) =
     map_prod Some id (process_request cfg cd bs w)"
proof -
  have four: "(4::nat) = Suc (Suc (Suc (Suc 0)))" by simp
  show ?thesis
    unfolding four tsr_run_stages process_request_def Let_def
    by (auto split: option.split sum.split)
qed

section \<open>What one request does to the world\<close>

lemma reject_resp_token [simp]: "timeStampToken (reject_resp f) = None"
  by (simp add: reject_resp_def)

lemma grant_resp_token [simp]: "timeStampToken (grant_resp oc env) = Some env"
  by (simp add: grant_resp_def)

lemma next_serial_le: "next_serial a = Inr (s, a') \<Longrightarrow> last_serial a \<le> last_serial a'"
  using next_serial_unat [of a s a'] by (simp add: order_less_imp_le)

lemma process_request_granted:
  assumes pr: "process_request cfg cd bs w = (resp, w')" and tok: "timeStampToken resp = Some env"
  obtains req sn a' tok oc where
    "decode_req cd bs = Some req" "validate_request cfg req = Inr ()"
    "next_serial (allocator w) = Inr (sn, a')" "build_token cfg req sn (clock w) = Inr (tok, oc)"
    "sign_token cfg (encode_tst cd) (identity w) tok (certReq req) = Inr env"
    "resp = grant_resp oc env"
    "w' = w\<lparr>allocator := a', signing_log := signing_log w @ [encodedContent env]\<rparr>"
proof -
  obtain req where dec: "decode_req cd bs = Some req"
    using pr tok by (cases "decode_req cd bs") (auto simp: process_request_def)
  have val: "validate_request cfg req = Inr ()"
    using pr tok dec by (cases "validate_request cfg req") (auto simp: process_request_def)
  obtain sn a' where ns: "next_serial (allocator w) = Inr (sn, a')"
    using pr tok dec val by (cases "next_serial (allocator w)") (auto simp: process_request_def)
  obtain tk oc where bt: "build_token cfg req sn (clock w) = Inr (tk, oc)"
    using pr tok dec val ns by (cases "build_token cfg req sn (clock w)") (auto simp: process_request_def)
  obtain env' where sg: "sign_token cfg (encode_tst cd) (identity w) tk (certReq req) = Inr env'"
    using pr tok dec val ns bt
    by (cases "sign_token cfg (encode_tst cd) (identity w) tk (certReq req)")
       (auto simp: process_request_def)
  have res: "resp = grant_resp oc env'"
    and w': "w' = w\<lparr>allocator := a', signing_log := signing_log w @ [encodedContent env']\<rparr>"
    using pr dec val ns bt sg by (simp_all add: process_request_def)
  with tok have "env' = env" by simp
  then show ?thesis
    using that [OF dec val ns bt] sg res w' by simp
qed

lemma process_request_validation_failure:
  "decode_req cd bs = Some req \<Longrightarrow> validate_request cfg req = Inl r \<Longrightarrow>
   process_request cfg cd bs w = (reject_resp (failure_of_reason r), w)"
  by (simp add: process_request_def)

lemma process_request_undecodable:
  "decode_req cd bs = None \<Longrightarrow> process_request cfg cd bs w = (reject_resp BadDataFormat, w)"
  by (simp add: process_request_def)

lemma process_request_world:
  obtains "snd (process_request cfg cd bs w) = w"
  | sn a' where "next_serial (allocator w) = Inr (sn, a')"
      and "snd (process_request cfg cd bs w) = w\<lparr>allocator := a'\<rparr>"
  | sn a' and env :: SignedEnvelope where "next_serial (allocator w) = Inr (sn, a')"
      and "snd (process_request cfg cd bs w) =
             w\<lparr>allocator := a', signing_log := signing_log w @ [encodedContent env]\<rparr>"
proof (cases "decode_req cd bs")
  case None
  then show ?thesis using that(1) by (simp add: process_request_def)
next
  case (Some req)
  show ?thesis
  proof (cases "validate_request cfg req")
    case (Inl r)
    with Some show ?thesis using that(1) by (simp add: process_request_def)
  next
    case (Inr u)
    show ?thesis
    proof (cases "next_serial (allocator w)")
      case (Inl e)
      with Some Inr show ?thesis using that(1) by (simp add: process_request_def)
    next
      case (Inr p)
      obtain sn a' where p: "p = (sn, a')" by fastforce
      have ns: "next_serial (allocator w) = Inr (sn, a')" using Inr p by simp
      show ?thesis
      proof (cases "build_token cfg req sn (clock w)")
        case (Inl e)
        with Some \<open>validate_request cfg req = Inr u\<close> ns show ?thesis
          using that(2) [OF ns] by (simp add: process_request_def)
      next
        case (Inr q)
        obtain tk oc where q: "q = (tk, oc)" by fastforce
        show ?thesis
        proof (cases "sign_token cfg (encode_tst cd) (identity w) tk (certReq req)")
          case (Inl e)
          with Some \<open>validate_request cfg req = Inr u\<close> ns \<open>build_token cfg req sn (clock w) = Inr q\<close> q
          show ?thesis using that(2) [OF ns] by (simp add: process_request_def)
        next
          case (Inr env)
          with Some \<open>validate_request cfg req = Inr u\<close> ns \<open>build_token cfg req sn (clock w) = Inr q\<close> q
          show ?thesis using that(3) [OF ns, of env] by (simp add: process_request_def)
        qed
      qed
    qed
  qed
qed

lemma process_request_frame:
  "clock (snd (process_request cfg cd bs w)) = clock w
   \<and> identity (snd (process_request cfg cd bs w)) = identity w
   \<and> last_serial (allocator w) \<le> last_serial (allocator (snd (process_request cfg cd bs w)))"
  by (cases rule: process_request_world [of cfg cd bs w]) (auto dest: next_serial_le)

end
