(* ===== verification/Tsa_Service.thy ===== *)
theory Tsa_Service
  imports Timestamp_Response Tsa_Engine
begin

text \<open>
  The time-stamping service as deployed: the engine's handler, wrapped as a
  \<open>TimestampResponseHandlerFunc\<close> and installed by \<open>NewTimestampResponse\<close> into the
  generated operation, whose \<open>ServeHTTP\<close> routes and binds each request. The claims of
  this theory follow a request from the HTTP layer through the engine and back, and a
  sequence of requests through the shared serial counter.
\<close>

section \<open>The deployed operation\<close>

definition tsa_operation ::
  "('req, TimestampResponseParams, 'e) Context \<Rightarrow> tsa_config \<Rightarrow> tsp_codec
   \<Rightarrow> ('req, TimestampResponseParams, 'e, tsa_world, TimeStampResp) TimestampResponse" where
  "tsa_operation ctx cfg cd =
     NewTimestampResponse ctx (HandlerFunc_handler (TimestampResponseHandlerFunc (tsa_handler cfg cd)))"

text \<open>The serial numbers of the tokens in a list of written responses, in order.\<close>

definition token_serials :: "('req, 'e, TimeStampResp) respond_call list \<Rightarrow> serial list" where
  "token_serials rw =
     List.map_filter (\<lambda>c. case resp_data c of
                          RespondError _ \<Rightarrow> None
                        | RespondResponder resp \<Rightarrow> map_option (serialNumber \<circ> content) (timeStampToken resp)) rw"

definition issued_serials ::
  "(go_panic option \<times> 'req \<times> ('req, 'e, TimeStampResp) respond_call list) list \<Rightarrow> serial list" where
  "issued_serials outs = concat (map (\<lambda>(_, _, rw). token_serials rw) outs)"

section \<open>Test fixtures\<close>

text \<open>
  A configuration with SHA-256 as the only hash algorithm and one policy that is also the
  default, a signing identity valid until 2033, a world whose counter stands at 41, and a
  stand-in codec that decodes three one-byte bodies to fixed requests: SHA-256 with no
  policy, MD2, and SHA-256 with an unsupported policy, a nonce and certReq set.
\<close>

definition pol_main :: oid where "pol_main = [0x2B, 0x06, 0x01, 0x04, 0x01, 0x01]"

definition pol_other :: oid where "pol_other = [0x2B, 0x06, 0x01, 0x04, 0x01, 0x02]"

definition demo_cfg :: tsa_config where
  "demo_cfg = \<lparr>supported_version = 1, hash_algs = [(oid_sha256, 32)], policies = [pol_main],
     default_policy = Some pol_main, allow_policy_substitution = True, supported_extensions = [],
     clock_accuracy = Some 1000000, tsa_name = None, sig_algs = [oid_ecdsa_sha256]\<rparr>"

definition demo_identity :: SigningIdentity where
  "demo_identity = \<lparr>sign_fn = rev, cert_chain = [[0x30, 0x00]], not_before = 0, not_after = 2000000000\<rparr>"

definition demo_world :: tsa_world where
  "demo_world = \<lparr>allocator = \<lparr>last_serial = 41\<rparr>, clock = 1700000000, identity = demo_identity,
     signing_log = []\<rparr>"

definition req_sha256 :: TimeStampReq where
  "req_sha256 = \<lparr>req_version = 1,
     messageImprint = \<lparr>hashAlgorithm = \<lparr>algorithm = oid_sha256, parameters = None\<rparr>,
                       hashedMessage = replicate 32 0\<rparr>,
     reqPolicy = None, nonce = None, certReq = False, extensions = []\<rparr>"

definition req_md2 :: TimeStampReq where
  "req_md2 = req_sha256\<lparr>messageImprint := \<lparr>hashAlgorithm = \<lparr>algorithm = oid_md2, parameters = None\<rparr>,
                                             hashedMessage = replicate 16 0\<rparr>\<rparr>"

definition req_other_policy :: TimeStampReq where
  "req_other_policy = req_sha256\<lparr>reqPolicy := Some pol_other, nonce := Some 7, certReq := True\<rparr>"

definition demo_codec :: tsp_codec where
  "demo_codec = \<lparr>decode_req = (\<lambda>bs. if bs = [1] then Some req_sha256 else if bs = [2] then Some req_md2
                                     else if bs = [3] then Some req_other_policy else None),
                 encode_tst = (\<lambda>t. hashedMessage (tst_imprint t))\<rparr>"

definition tsr_route :: MatchedRoute where
  "tsr_route = \<lparr>Produces = [''application/timestamp-reply''], Consumes = [''application/timestamp-query'']\<rparr>"

definition demo_tsa_ctx :: "(byte list, TimestampResponseParams, string) Context" where
  "demo_tsa_ctx = \<lparr>RouteInfo = (\<lambda>r. (Some tsr_route, None, True)),
     BindValidRequest = (\<lambda>r route p. if r = [] then (Some ''body required'', p) else (None, \<lparr>Request = r\<rparr>))\<rparr>"

abbreviation demo_op_tsa where "demo_op_tsa \<equiv> tsa_operation demo_tsa_ctx demo_cfg demo_codec"

section \<open>Helper lemmas\<close>

lemma tsa_operation_Handle [simp]:
  "Handle (Handler (tsa_operation ctx cfg cd)) = tsa_handler cfg cd"
  by (simp add: tsa_operation_def NewTimestampResponse_def HandlerFunc_handler_def)

lemma tsa_operation_Context [simp]: "Context (tsa_operation ctx cfg cd) = ctx"
  by (simp add: tsa_operation_def NewTimestampResponse_def)

lemma token_serial_of_request:
  assumes "process_request cfg cd bs w = (resp, w')" and "timeStampToken resp = Some env"
  shows "serialNumber (content env) = last_serial (allocator w')
       \<and> last_serial (allocator w) < serialNumber (content env)"
proof -
  obtain req sn a' tok oc where
    ns: "next_serial (allocator w) = Inr (sn, a')" and
    bt: "build_token cfg req sn (clock w) = Inr (tok, oc)" and
    sg: "sign_token cfg (encode_tst cd) (identity w) tok (certReq req) = Inr env" and
    w': "w' = w\<lparr>allocator := a', signing_log := signing_log w @ [encodedContent env]\<rparr>"
    using assms by (rule process_request_granted)
  have "serialNumber (content env) = sn"
    using build_token_Inr [OF bt] sign_token_Inr [OF sg] by simp
  with next_serial_unat [OF ns] w' show ?thesis by simp
qed

lemma token_serials_responder [simp]:
  "token_serials [\<lparr>resp_request = r, resp_produces = ps, resp_route = rt, resp_data = RespondResponder resp\<rparr>]
     = (case timeStampToken resp of None \<Rightarrow> [] | Some env \<Rightarrow> [serialNumber (content env)])"
  by (simp add: token_serials_def split: option.split)

lemma token_serials_error [simp]:
  "token_serials [\<lparr>resp_request = r, resp_produces = ps, resp_route = rt, resp_data = RespondError e\<rparr>] = []"
  by (simp add: token_serials_def)

lemma token_serials_Nil [simp]: "token_serials [] = []"
  by (simp add: token_serials_def)

lemma ServeHTTP_tsa_serials:
  fixes ctx :: "('req, TimestampResponseParams, 'e) Context" and cfg cd pinit
    and st :: "('req, 'e, TimeStampResp, tsa_world) serve_state"
  defines "st' \<equiv> snd (ServeHTTP (tsa_operation ctx cfg cd) pinit st)"
  shows "(\<forall>s \<in> set (token_serials (drop (length (written st)) (written st'))).
            last_serial (allocator (world st)) < s \<and> s = last_serial (allocator (world st')))
       \<and> length (token_serials (drop (length (written st)) (written st'))) \<le> 1
       \<and> last_serial (allocator (world st)) \<le> last_serial (allocator (world st'))"
proof -
  obtain route r where rr: "route_request ctx (request st) = (route, r)" by fastforce
  obtain err P where bind: "BindValidRequest ctx r route pinit = (err, P)" by fastforce
  have bp: "bound_params ctx pinit (request st) = (if err = None then Some P else None)"
    using rr bind by (cases err) (simp_all add: bound_params_def)
  let ?pr = "process_request cfg cd (Request P) (world st)"
  have w: "world st' = (if err = None then snd ?pr else world st)"
    using bp by (simp add: st'_def ServeHTTP_world tsa_handler_def)
  have mono: "last_serial (allocator (world st)) \<le> last_serial (allocator (world st'))"
    using w process_request_frame [of cfg cd "Request P" "world st"] by simp
  show ?thesis
  proof (cases route)
    case None
    then have "drop (length (written st)) (written st') = []"
      using rr by (simp add: st'_def ServeHTTP_written)
    with mono show ?thesis by simp
  next
    case (Some rt)
    show ?thesis
    proof (cases err)
      case (Some e)
      then have "token_serials (drop (length (written st)) (written st')) = []"
        using rr bind \<open>route = Some rt\<close> by (simp add: st'_def ServeHTTP_written)
      with mono show ?thesis by simp
    next
      case None
      have tsr: "token_serials (drop (length (written st)) (written st')) =
                   (case timeStampToken (fst ?pr) of None \<Rightarrow> [] | Some env \<Rightarrow> [serialNumber (content env)])"
        using rr bind None \<open>route = Some rt\<close> by (simp add: st'_def ServeHTTP_written tsa_handler_def)
      show ?thesis
      proof (cases "timeStampToken (fst ?pr)")
        case None
        with tsr mono show ?thesis by simp
      next
        case (Some env)
        have "?pr = (fst ?pr, snd ?pr)" by simp
        from token_serial_of_request [OF this Some]
        have "serialNumber (content env) = last_serial (allocator (snd ?pr))
            \<and> last_serial (allocator (world st)) < serialNumber (content env)" .
        with tsr Some w \<open>err = None\<close> mono show ?thesis by auto
      qed
    qed
  qed
qed

lemma serve_all_Cons_split:
  assumes "ServeHTTP tr params0 \<lparr>request = r, written = [], world = w\<rparr> = (out, st)"
  shows "fst (serve_all tr params0 (r # rs) w) = (out, request st, written st) # fst (serve_all tr params0 rs (world st))"
    and "snd (serve_all tr params0 (r # rs) w) = snd (serve_all tr params0 rs (world st))"
  using assms by (simp_all split: prod.split)

lemma issued_serials_Cons [simp]:
  "issued_serials ((out, r, rw) # outs) = token_serials rw @ issued_serials outs"
  by (simp add: issued_serials_def)

lemma issued_serials_Nil [simp]: "issued_serials [] = []"
  by (simp add: issued_serials_def)

lemma serve_all_tsa_counter_mono:
  "last_serial (allocator w) \<le> last_serial (allocator (snd (serve_all (tsa_operation ctx cfg cd) params0 rs w)))"
proof (induction rs arbitrary: w)
  case Nil
  then show ?case by simp
next
  case (Cons r rs)
  obtain out st where st: "ServeHTTP (tsa_operation ctx cfg cd) params0 \<lparr>request = r, written = [], world = w\<rparr> = (out, st)"
    by fastforce
  have "last_serial (allocator w) \<le> last_serial (allocator (world st))"
    using ServeHTTP_tsa_serials [where ctx = ctx and cfg = cfg and cd = cd and pinit = params0 and st = "\<lparr>request = r, written = [], world = w\<rparr>"] st by simp
  also have "\<dots> \<le> last_serial (allocator (snd (serve_all (tsa_operation ctx cfg cd) params0 rs (world st))))"
    by (rule Cons.IH)
  finally show ?case
    unfolding serve_all_Cons_split(2) [OF st] .
qed

lemma ServeHTTP_tsa_bound:
  assumes "route_request ctx (request st) = (Some rt, r)"
    and "BindValidRequest ctx r (Some rt) pinit = (None, P)"
  shows "ServeHTTP (tsa_operation ctx cfg cd) pinit st =
    (None, st\<lparr>request := r, world := snd (process_request cfg cd (Request P) (world st)),
              written := written st @ [\<lparr>resp_request = r, resp_produces = Produces rt, resp_route = rt,
                 resp_data = RespondResponder (fst (process_request cfg cd (Request P) (world st)))\<rparr>]\<rparr>)"
  using assms by (simp add: ServeHTTP_split respond_def tsa_handler_def)

lemmas demo_defs = demo_cfg_def demo_identity_def demo_world_def req_sha256_def req_md2_def
  req_other_policy_def demo_codec_def tsr_route_def demo_tsa_ctx_def pol_main_def pol_other_def
  oid_sha256_def oid_md2_def oid_ecdsa_sha256_def

lemmas engine_defs = process_request_def validate_request_def policy_acceptable_def
  unsupported_critical_def next_serial_def build_token_def negotiate_policy_def sign_token_def
  valid_at_def grant_resp_def reject_resp_def Let_def

lemma demo_process_sha256:
  "timeStampToken (fst (process_request demo_cfg demo_codec [1] demo_world)) \<noteq> None"
  by (simp add: demo_defs engine_defs)

lemma demo_route_request [simp]: "route_request demo_tsa_ctx r = (Some tsr_route, r)"
  by (simp add: route_request_def demo_tsa_ctx_def)

lemma demo_bind [simp]:
  "BindValidRequest demo_tsa_ctx r rt p = (if r = [] then (Some ''body required'', p) else (None, \<lparr>Request = r\<rparr>))"
  by (simp add: demo_tsa_ctx_def)

lemma demo_serve_tsa:
  "issued_serials (fst (serve_all demo_op_tsa \<lparr>Request = []\<rparr> [[1], [3], [2], []] demo_world)) = [42, 43]"
  by (simp add: ServeHTTP_def respond_def tsa_handler_def token_serials_def engine_defs
       demo_cfg_def demo_identity_def demo_world_def req_sha256_def req_md2_def
       req_other_policy_def demo_codec_def tsr_route_def pol_main_def pol_other_def
       oid_sha256_def oid_md2_def oid_ecdsa_sha256_def)

lemma demo_process_other_policy:
  "timeStampToken (fst (process_request demo_cfg demo_codec [3] demo_world)) \<noteq> None"
  by (simp add: demo_defs engine_defs)

section \<open>Claims\<close>

text \<open>
  C7. A token issued through the deployed operation attests exactly what was received: its
  message imprint and nonce are the decoded request's, copied verbatim; its time is the
  clock reading, inside the signing certificate's validity window; and the certificate
  chain is embedded exactly when the request asked for it.
\<close>

theorem tsa_token_copies_request:
  assumes "route_request ctx (request st) = (Some rt, r)"
    and "BindValidRequest ctx r (Some rt) pinit = (None, P)"
    and "decode_req cd (Request P) = Some req"
    and "ServeHTTP (tsa_operation ctx cfg cd) pinit st = (out, st')"
    and "c \<in> set (written st')" and "c \<notin> set (written st)"
    and "resp_data c = RespondResponder resp" and "timeStampToken resp = Some env"
  shows "tst_imprint (content env) = messageImprint req \<and> tst_nonce (content env) = nonce req
       \<and> genTime (content env) = clock (world st) \<and> valid_at (identity (world st)) (genTime (content env))
       \<and> certificates env = (if certReq req then cert_chain (identity (world st)) else [])"
proof -
  let ?pr = "process_request cfg cd (Request P) (world st)"
  have "resp = fst ?pr"
    using ServeHTTP_tsa_bound [OF assms(1,2), of cfg cd] assms(4-7) by auto
  then have pr: "?pr = (resp, snd ?pr)" by simp
  obtain req' sn a' tok oc where
    dec: "decode_req cd (Request P) = Some req'" and
    bt: "build_token cfg req' sn (clock (world st)) = Inr (tok, oc)" and
    sg: "sign_token cfg (encode_tst cd) (identity (world st)) tok (certReq req') = Inr env"
    using process_request_granted [OF pr assms(8)] by metis
  have "req' = req" using dec assms(3) by simp
  with build_token_Inr [OF bt] sign_token_Inr [OF sg] show ?thesis by simp
qed

text \<open>
  C8. Over any sequence of requests served by the deployed operation, the serial numbers
  of the tokens issued are strictly increasing in issuance order, hence never repeat, and
  all lie above the counter's initial value and at most its final one.
\<close>

theorem tsa_serials_increasing:
  "sorted_wrt (<) (issued_serials (fst (serve_all (tsa_operation ctx cfg cd) params0 rs w)))
   \<and> (\<forall>s \<in> set (issued_serials (fst (serve_all (tsa_operation ctx cfg cd) params0 rs w))).
        last_serial (allocator w) < s
      \<and> s \<le> last_serial (allocator (snd (serve_all (tsa_operation ctx cfg cd) params0 rs w))))"
proof (induction rs arbitrary: w)
  case Nil
  then show ?case by simp
next
  case (Cons r rs)
  obtain out st where st: "ServeHTTP (tsa_operation ctx cfg cd) params0 \<lparr>request = r, written = [], world = w\<rparr> = (out, st)"
    by fastforce
  let ?fin = "snd (serve_all (tsa_operation ctx cfg cd) params0 rs (world st))"
  have here: "\<forall>s \<in> set (token_serials (written st)). last_serial (allocator w) < s \<and> s = last_serial (allocator (world st))"
    and one: "length (token_serials (written st)) \<le> 1"
    using ServeHTTP_tsa_serials [where ctx = ctx and cfg = cfg and cd = cd and pinit = params0 and st = "\<lparr>request = r, written = [], world = w\<rparr>"] st by simp_all
  have mono1: "last_serial (allocator w) \<le> last_serial (allocator (world st))"
    using ServeHTTP_tsa_serials [where ctx = ctx and cfg = cfg and cd = cd and pinit = params0 and st = "\<lparr>request = r, written = [], world = w\<rparr>"] st by simp
  have mono2: "last_serial (allocator (world st)) \<le> last_serial (allocator ?fin)"
    by (rule serve_all_tsa_counter_mono)
  have sorted_here: "sorted_wrt (<) (token_serials (written st))"
    using one by (cases "token_serials (written st)") simp_all
  show ?case
    unfolding serve_all_Cons_split [OF st] issued_serials_Cons
    using Cons.IH [of "world st"] here sorted_here mono1 mono2
    by (auto simp: sorted_wrt_append intro: order.strict_trans1)
qed

text \<open>
  C9. A request that decodes but fails validation is answered with a rejection carrying
  the failure reason of the first failed check, and leaves the service's state entirely
  unchanged: no serial number is consumed and the signing capability is not invoked.
\<close>

theorem tsa_rejection_keeps_state:
  assumes "route_request ctx (request st) = (Some rt, r)"
    and "BindValidRequest ctx r (Some rt) pinit = (None, P)"
    and "decode_req cd (Request P) = Some req" and "validate_request cfg req = Inl reason"
  shows "ServeHTTP (tsa_operation ctx cfg cd) pinit st =
    (None, st\<lparr>request := r,
              written := written st @ [\<lparr>resp_request = r, resp_produces = Produces rt, resp_route = rt,
                 resp_data = RespondResponder (reject_resp (failure_of_reason reason))\<rparr>]\<rparr>)"
  using ServeHTTP_tsa_bound [OF assms(1,2), of cfg cd]
        process_request_validation_failure [OF assms(3,4), of "world st"]
  by simp

text \<open>
  C10. When the signing certificate is not valid at the current time, a valid request gets
  \<open>systemFailure\<close> and no token; its serial number is consumed (a gap), and the signing
  capability is not invoked.
\<close>

theorem tsa_expired_signer:
  assumes "route_request ctx (request st) = (Some rt, r)"
    and "BindValidRequest ctx r (Some rt) pinit = (None, P)"
    and "decode_req cd (Request P) = Some req" and "validate_request cfg req = Inr ()"
    and "last_serial (allocator (world st)) \<noteq> - 1"
    and "\<not> valid_at (identity (world st)) (clock (world st))"
  shows "ServeHTTP (tsa_operation ctx cfg cd) pinit st =
    (None, st\<lparr>request := r,
              world := world st\<lparr>allocator := \<lparr>last_serial = last_serial (allocator (world st)) + 1\<rparr>\<rparr>,
              written := written st @ [\<lparr>resp_request = r, resp_produces = Produces rt, resp_route = rt,
                 resp_data = RespondResponder (reject_resp SystemFailure)\<rparr>]\<rparr>)"
proof -
  let ?w = "world st"
  let ?sn = "last_serial (allocator ?w) + 1"
  have ns: "next_serial (allocator ?w) = Inr (?sn, (allocator ?w)\<lparr>last_serial := ?sn\<rparr>)"
    using assms(5) by (simp add: next_serial_def Let_def)
  have pa: "policy_acceptable cfg (reqPolicy req)"
    using assms(4) by (simp add: validate_request_ok_iff)
  obtain pol where bt: "build_token cfg req ?sn (clock ?w) =
       Inr (\<lparr>tst_version = 1, policy = pol, tst_imprint = messageImprint req,
              serialNumber = ?sn, genTime = clock ?w, accuracy = clock_accuracy cfg,
              ordering = True, tst_nonce = nonce req, tsaName = tsa_name cfg,
              tst_extensions = []\<rparr>, negotiate_policy cfg (reqPolicy req))"
    using build_token_ok [OF pa, of ?sn "clock ?w"] by blast
  have "process_request cfg cd (Request P) ?w =
          (reject_resp SystemFailure, ?w\<lparr>allocator := (allocator ?w)\<lparr>last_serial := ?sn\<rparr>\<rparr>)"
    using assms(3,4,6) ns bt by (simp add: process_request_def sign_token_expired)
  then show ?thesis
    using ServeHTTP_tsa_bound [OF assms(1,2), of cfg cd] by simp
qed

text \<open>
  C11. A token is granted with status \<open>grantedWithMods\<close> exactly when the request named a
  policy the authority does not support and the default was substituted, and with
  \<open>granted\<close> otherwise; the token's policy is the requested one if supported, else the default.
\<close>

theorem tsa_granted_with_mods:
  assumes "route_request ctx (request st) = (Some rt, r)"
    and "BindValidRequest ctx r (Some rt) pinit = (None, P)"
    and "decode_req cd (Request P) = Some req"
    and "ServeHTTP (tsa_operation ctx cfg cd) pinit st = (out, st')"
    and "c \<in> set (written st')" and "c \<notin> set (written st)"
    and "resp_data c = RespondResponder resp" and "timeStampToken resp = Some env"
  shows "(status resp = GrantedWithMods \<longleftrightarrow> (\<exists>q. reqPolicy req = Some q \<and> q \<notin> set (policies cfg)))
       \<and> status resp \<in> {Granted, GrantedWithMods} \<and> failInfo resp = None
       \<and> Some (policy (content env)) =
           (case reqPolicy req of
              Some q \<Rightarrow> if q \<in> set (policies cfg) then Some q else default_policy cfg
            | None \<Rightarrow> default_policy cfg)"
proof -
  let ?pr = "process_request cfg cd (Request P) (world st)"
  have "resp = fst ?pr"
    using ServeHTTP_tsa_bound [OF assms(1,2), of cfg cd] assms(4-7) by auto
  then have pr: "?pr = (resp, snd ?pr)" by simp
  obtain req' sn a' tok oc where
    dec: "decode_req cd (Request P) = Some req'" and
    bt: "build_token cfg req' sn (clock (world st)) = Inr (tok, oc)" and
    sg: "sign_token cfg (encode_tst cd) (identity (world st)) tok (certReq req') = Inr env" and
    res: "resp = grant_resp oc env"
    using process_request_granted [OF pr assms(8)] by metis
  have "req' = req" using dec assms(3) by simp
  then have oc: "oc = negotiate_policy cfg (reqPolicy req)" and pol: "outcome_policy oc = Some (policy tok)"
    and tok: "content env = tok"
    using build_token_Inr [OF bt] sign_token_Inr [OF sg] by auto
  show ?thesis
    using oc pol tok res
    by (auto simp: negotiate_policy_def grant_resp_def split: option.splits if_splits)
qed

text \<open>
  C12. When the 64-bit serial counter is at its maximum, a valid request gets
  \<open>systemFailure\<close> and the counter does not wrap around: the service's state is unchanged.
\<close>

theorem tsa_counter_exhausted:
  assumes "route_request ctx (request st) = (Some rt, r)"
    and "BindValidRequest ctx r (Some rt) pinit = (None, P)"
    and "decode_req cd (Request P) = Some req" and "validate_request cfg req = Inr ()"
    and "last_serial (allocator (world st)) = - 1"
  shows "ServeHTTP (tsa_operation ctx cfg cd) pinit st =
    (None, st\<lparr>request := r,
              written := written st @ [\<lparr>resp_request = r, resp_produces = Produces rt, resp_route = rt,
                 resp_data = RespondResponder (reject_resp SystemFailure)\<rparr>]\<rparr>)"
proof -
  have "process_request cfg cd (Request P) (world st) = (reject_resp SystemFailure, world st)"
    using assms(3-5) by (simp add: process_request_def next_serial_def)
  then show ?thesis
    using ServeHTTP_tsa_bound [OF assms(1,2), of cfg cd] by simp
qed

section \<open>Witnesses\<close>

theorem tsa_token_copies_request_witness:
  "\<exists>env. timeStampToken (fst (process_request demo_cfg demo_codec [1] demo_world)) = Some env
     \<and> tst_imprint (content env) = messageImprint req_sha256 \<and> tst_nonce (content env) = None
     \<and> certificates env = []"
proof -
  let ?st = "\<lparr>request = [1], written = [], world = demo_world\<rparr> :: (byte list, string, TimeStampResp, tsa_world) serve_state"
  let ?pr = "process_request demo_cfg demo_codec [1] demo_world"
  obtain env where env: "timeStampToken (fst ?pr) = Some env"
    using demo_process_sha256 by blast
  let ?c = "\<lparr>resp_request = [1::byte], resp_produces = Produces tsr_route, resp_route = tsr_route,
             resp_data = RespondResponder (fst ?pr)\<rparr> :: (byte list, string, TimeStampResp) respond_call"
  have serve: "ServeHTTP demo_op_tsa \<lparr>Request = []\<rparr> ?st = (None, ?st\<lparr>world := snd ?pr, written := [?c]\<rparr>)"
    using ServeHTTP_tsa_bound [where ctx = demo_tsa_ctx and st = ?st and rt = tsr_route and r = "[1]"
        and pinit = "\<lparr>Request = []\<rparr>" and P = "\<lparr>Request = [1]\<rparr>" and cfg = demo_cfg and cd = demo_codec]
    by simp
  have r: "route_request demo_tsa_ctx (request ?st) = (Some tsr_route, [1])" by simp
  have b: "BindValidRequest demo_tsa_ctx [1] (Some tsr_route) \<lparr>Request = []\<rparr> = (None, \<lparr>Request = [1]\<rparr>)" by simp
  have d: "decode_req demo_codec (Request \<lparr>Request = [1]\<rparr>) = Some req_sha256" by (simp add: demo_codec_def)
  have cin: "?c \<in> set (written (?st\<lparr>world := snd ?pr, written := [?c]\<rparr>))" by simp
  have cnot: "?c \<notin> set (written ?st)" by simp
  have rd: "resp_data ?c = RespondResponder (fst ?pr)" by simp
  have "tst_imprint (content env) = messageImprint req_sha256 \<and> tst_nonce (content env) = nonce req_sha256
       \<and> genTime (content env) = clock (world ?st) \<and> valid_at (identity (world ?st)) (genTime (content env))
       \<and> certificates env = (if certReq req_sha256 then cert_chain (identity (world ?st)) else [])"
    using tsa_token_copies_request [OF r b d serve cin cnot rd env]
    by this
  with env show ?thesis
    by (simp add: req_sha256_def)
qed

theorem tsa_serials_increasing_witness:
  "issued_serials (fst (serve_all demo_op_tsa \<lparr>Request = []\<rparr> [[1], [3], [2], []] demo_world)) = [42, 43]
   \<and> sorted_wrt (<) (issued_serials (fst (serve_all demo_op_tsa \<lparr>Request = []\<rparr> [[1], [3], [2], []] demo_world)))"
  using tsa_serials_increasing [of demo_tsa_ctx demo_cfg demo_codec "\<lparr>Request = []\<rparr>" "[[1], [3], [2], []]" demo_world]
  unfolding demo_serve_tsa by simp

theorem tsa_rejection_keeps_state_witness:
  "ServeHTTP demo_op_tsa \<lparr>Request = []\<rparr> \<lparr>request = [2], written = [], world = demo_world\<rparr> =
    (None, \<lparr>request = [2], written = [\<lparr>resp_request = [2], resp_produces = Produces tsr_route,
       resp_route = tsr_route, resp_data = RespondResponder (reject_resp BadAlg)\<rparr>], world = demo_world\<rparr>)"
proof -
  have "validate_request demo_cfg req_md2 = Inl RejHashAlgorithm"
    by (simp add: validate_request_def demo_defs)
  then show ?thesis
    using tsa_rejection_keeps_state [where ctx = demo_tsa_ctx and st = "\<lparr>request = [2], written = [], world = demo_world\<rparr>"
        and rt = tsr_route and r = "[2]" and pinit = "\<lparr>Request = []\<rparr>" and P = "\<lparr>Request = [2]\<rparr>"
        and cd = demo_codec and req = req_md2 and cfg = demo_cfg and reason = RejHashAlgorithm]
    by (simp add: demo_codec_def)
qed

theorem tsa_expired_signer_witness:
  "ServeHTTP demo_op_tsa \<lparr>Request = []\<rparr>
      \<lparr>request = [1], written = [], world = demo_world\<lparr>clock := 2100000000\<rparr>\<rparr> =
    (None, \<lparr>request = [1], written = [\<lparr>resp_request = [1], resp_produces = Produces tsr_route,
       resp_route = tsr_route, resp_data = RespondResponder (reject_resp SystemFailure)\<rparr>],
       world = demo_world\<lparr>clock := 2100000000, allocator := \<lparr>last_serial = 42\<rparr>\<rparr>\<rparr>)"
proof -
  have v: "validate_request demo_cfg req_sha256 = Inr ()"
    by (simp add: demo_defs engine_defs)
  have x: "\<not> valid_at (identity (demo_world\<lparr>clock := 2100000000\<rparr>)) (clock (demo_world\<lparr>clock := 2100000000\<rparr>))"
    by (simp add: demo_defs valid_at_def)
  show ?thesis
    using tsa_expired_signer [where ctx = demo_tsa_ctx
        and st = "\<lparr>request = [1], written = [], world = demo_world\<lparr>clock := 2100000000\<rparr>\<rparr>"
        and rt = tsr_route and r = "[1]" and pinit = "\<lparr>Request = []\<rparr>" and P = "\<lparr>Request = [1]\<rparr>"
        and cd = demo_codec and req = req_sha256 and cfg = demo_cfg] v x
    by (simp add: demo_codec_def demo_world_def)
qed

theorem tsa_granted_with_mods_witness:
  "\<exists>env. timeStampToken (fst (process_request demo_cfg demo_codec [3] demo_world)) = Some env
     \<and> status (fst (process_request demo_cfg demo_codec [3] demo_world)) = GrantedWithMods
     \<and> policy (content env) = pol_main"
proof -
  let ?st = "\<lparr>request = [3], written = [], world = demo_world\<rparr> :: (byte list, string, TimeStampResp, tsa_world) serve_state"
  let ?pr = "process_request demo_cfg demo_codec [3] demo_world"
  obtain env where env: "timeStampToken (fst ?pr) = Some env"
    using demo_process_other_policy by blast
  let ?c = "\<lparr>resp_request = [3::byte], resp_produces = Produces tsr_route, resp_route = tsr_route,
             resp_data = RespondResponder (fst ?pr)\<rparr> :: (byte list, string, TimeStampResp) respond_call"
  have serve: "ServeHTTP demo_op_tsa \<lparr>Request = []\<rparr> ?st = (None, ?st\<lparr>world := snd ?pr, written := [?c]\<rparr>)"
    using ServeHTTP_tsa_bound [where ctx = demo_tsa_ctx and st = ?st and rt = tsr_route and r = "[3]"
        and pinit = "\<lparr>Request = []\<rparr>" and P = "\<lparr>Request = [3]\<rparr>" and cfg = demo_cfg and cd = demo_codec]
    by simp
  have r: "route_request demo_tsa_ctx (request ?st) = (Some tsr_route, [3])" by simp
  have b: "BindValidRequest demo_tsa_ctx [3] (Some tsr_route) \<lparr>Request = []\<rparr> = (None, \<lparr>Request = [3]\<rparr>)" by simp
  have d: "decode_req demo_codec (Request \<lparr>Request = [3]\<rparr>) = Some req_other_policy" by (simp add: demo_codec_def)
  have cin: "?c \<in> set (written (?st\<lparr>world := snd ?pr, written := [?c]\<rparr>))" by simp
  have cnot: "?c \<notin> set (written ?st)" by simp
  have rd: "resp_data ?c = RespondResponder (fst ?pr)" by simp
  have "(status (fst ?pr) = GrantedWithMods \<longleftrightarrow>
          (\<exists>q. reqPolicy req_other_policy = Some q \<and> q \<notin> set (policies demo_cfg)))
       \<and> status (fst ?pr) \<in> {Granted, GrantedWithMods} \<and> failInfo (fst ?pr) = None
       \<and> Some (policy (content env)) =
           (case reqPolicy req_other_policy of
              Some q \<Rightarrow> if q \<in> set (policies demo_cfg) then Some q else default_policy demo_cfg
            | None \<Rightarrow> default_policy demo_cfg)"
    using tsa_granted_with_mods [OF r b d serve cin cnot rd env]
    by this
  with env show ?thesis
    by (simp add: req_other_policy_def req_sha256_def demo_cfg_def pol_main_def pol_other_def)
qed

theorem tsa_counter_exhausted_witness:
  "ServeHTTP demo_op_tsa \<lparr>Request = []\<rparr>
      \<lparr>request = [1], written = [], world = demo_world\<lparr>allocator := \<lparr>last_serial = - 1\<rparr>\<rparr>\<rparr> =
    (None, \<lparr>request = [1], written = [\<lparr>resp_request = [1], resp_produces = Produces tsr_route,
       resp_route = tsr_route, resp_data = RespondResponder (reject_resp SystemFailure)\<rparr>],
       world = demo_world\<lparr>allocator := \<lparr>last_serial = - 1\<rparr>\<rparr>\<rparr>)"
proof -
  have "validate_request demo_cfg req_sha256 = Inr ()"
    by (simp add: demo_defs engine_defs)
  then show ?thesis
    using tsa_counter_exhausted [where ctx = demo_tsa_ctx
        and st = "\<lparr>request = [1], written = [], world = demo_world\<lparr>allocator := \<lparr>last_serial = - 1\<rparr>\<rparr>\<rparr>"
        and rt = tsr_route and r = "[1]" and pinit = "\<lparr>Request = []\<rparr>" and P = "\<lparr>Request = [1]\<rparr>"
        and cd = demo_codec and req = req_sha256 and cfg = demo_cfg]
    by (simp add: demo_codec_def)
qed

end
