(* ===== verification/Der.thy ===== *)
theory Der
  imports Prelude "HOL-Library.Monad_Syntax"
begin

text \<open>
  The Distinguished Encoding Rules (X.690) that the request codec of spec section 4.1 is
  built on: big-endian naturals, definite lengths in short and long form (at most 126
  length octets, always minimal), tag-length-value elements with one-octet tags, minimal
  two's-complement INTEGER contents, object identifier contents, BOOLEAN DEFAULT FALSE,
  and parser helpers for mandatory and optional elements. Every encoder has a decoder with
  two laws: decoding an encoding gives back the value and the rest of the input, and an
  accepted input is the encoding of what it decodes to, so DER decoding accepts exactly
  the canonical encodings.
\<close>

section \<open>Definitions\<close>

subsection \<open>Big-endian naturals\<close>

fun be_bytes :: "nat \<Rightarrow> byte list" where
  "be_bytes n = (if n = 0 then [] else be_bytes (n div 256) @ [of_nat (n mod 256)])"

definition be_val :: "byte list \<Rightarrow> nat" where
  "be_val bs = foldl (\<lambda>acc b. acc * 256 + unat b) 0 bs"

subsection \<open>Lengths and elements\<close>

definition der_bound :: nat where
  "der_bound = 256 ^ 126"

definition encode_len :: "nat \<Rightarrow> byte list" where
  "encode_len n =
     (if n < 128 then [of_nat n] else of_nat (128 + length (be_bytes n)) # be_bytes n)"

definition decode_len :: "byte list \<Rightarrow> (nat \<times> byte list) option" where
  "decode_len bs =
     (case bs of
        [] \<Rightarrow> None
      | b # r \<Rightarrow>
          if unat b < 128 then Some (unat b, r)
          else (let k = unat b - 128 in
                if k = 0 \<or> 126 < k \<or> length r < k then None
                else (let lb = take k r in
                      if hd lb = 0 \<or> be_val lb < 128 then None else Some (be_val lb, drop k r))))"

definition encode_tlv :: "byte \<Rightarrow> byte list \<Rightarrow> byte list" where
  "encode_tlv t c = t # encode_len (length c) @ c"

definition der_tlv :: "byte list \<Rightarrow> (byte \<times> byte list \<times> byte list) option" where
  "der_tlv bs =
     (case bs of
        [] \<Rightarrow> None
      | t # r \<Rightarrow>
          (case decode_len r of
             None \<Rightarrow> None
           | Some (n, r') \<Rightarrow> if length r' < n then None else Some (t, take n r', drop n r')))"

subsection \<open>INTEGER contents\<close>

function enc_int :: "int \<Rightarrow> byte list" where
  "enc_int i = (if - 128 \<le> i \<and> i < 128 then [word_of_int i]
                else enc_int (i div 256) @ [word_of_int (i mod 256)])"
  by auto
termination
proof (relation "measure (\<lambda>i. nat \<bar>i\<bar>)")
  fix i :: int
  assume "\<not> (- 128 \<le> i \<and> i < 128)"
  then show "(i div 256, i) \<in> measure (\<lambda>i. nat \<bar>i\<bar>)"
    by auto
qed simp

fun dec_int :: "byte list \<Rightarrow> int" where
  "dec_int [] = 0"
| "dec_int (b # xs) = sint b * 256 ^ length xs + int (be_val xs)"

fun int_minimal :: "byte list \<Rightarrow> bool" where
  "int_minimal [] = False"
| "int_minimal [_] = True"
| "int_minimal (b0 # b1 # _) \<longleftrightarrow> \<not> (b0 = 0 \<and> b1 < 0x80) \<and> \<not> (b0 = 0xFF \<and> 0x80 \<le> b1)"

definition int_fits :: "nat \<Rightarrow> int \<Rightarrow> bool" where
  "int_fits k i \<longleftrightarrow> - (128 * 256 ^ k) \<le> i \<and> i < 128 * 256 ^ k"

subsection \<open>Parsers\<close>

type_synonym 'a der_parser = "byte list \<Rightarrow> ('a \<times> byte list) option"

definition expect_tlv :: "byte \<Rightarrow> byte list der_parser" where
  "expect_tlv t bs =
     (case der_tlv bs of
        None \<Rightarrow> None
      | Some (t', c, r) \<Rightarrow> if t' = t then Some (c, r) else None)"

definition opt_tlv :: "byte \<Rightarrow> byte list option der_parser" where
  "opt_tlv t bs =
     (case bs of
        b # _ \<Rightarrow> if b = t then map_option (\<lambda>(c, r). (Some c, r)) (expect_tlv t bs) else Some (None, bs)
      | [] \<Rightarrow> Some (None, []))"

primrec opt_enc :: "byte \<Rightarrow> byte list option \<Rightarrow> byte list" where
  "opt_enc t None = []"
| "opt_enc t (Some c) = encode_tlv t c"

fun oid_ok :: "bool \<Rightarrow> byte list \<Rightarrow> bool" where
  "oid_ok st [] = st"
| "oid_ok st (b # bs) \<longleftrightarrow> \<not> (st \<and> b = 0x80) \<and> oid_ok (b < 0x80) bs"

definition valid_oid :: "byte list \<Rightarrow> bool" where
  "valid_oid c \<longleftrightarrow> c \<noteq> [] \<and> oid_ok True c"

definition dec_bool_default :: "bool der_parser" where
  "dec_bool_default bs = do {
     (x, r) \<leftarrow> opt_tlv 0x01 bs;
     case x of None \<Rightarrow> Some (False, r) | Some c \<Rightarrow> if c = [0xFF] then Some (True, r) else None
   }"

definition enc_bool_default :: "bool \<Rightarrow> byte list" where
  "enc_bool_default b = (if b then encode_tlv 0x01 [0xFF] else [])"

declare be_bytes.simps [simp del]
declare enc_int.simps [simp del]

section \<open>Properties\<close>

lemma be_val_Nil [simp]: "be_val [] = 0"
  by (simp add: be_val_def)

lemma be_val_snoc [simp]: "be_val (xs @ [b]) = be_val xs * 256 + unat b"
  by (simp add: be_val_def)

lemma unat_byte_less: "unat (b :: byte) < 256"
  using unsigned_less [of b] by simp

lemma byte_of_nat_nonzero:
  assumes "0 < n" "n < 256" shows "(word_of_nat n :: byte) \<noteq> 0"
proof -
  have "unat (word_of_nat n :: byte) = n" using assms by (simp add: unat_of_nat)
  with assms(1) show ?thesis by (metis less_not_refl unsigned_0)
qed

lemma be_val_single [simp]: "be_val [b] = unat b"
  by (simp add: be_val_def)

lemma be_bytes_0 [simp]: "be_bytes 0 = []"
  by (simp add: be_bytes.simps)

lemma foldl_be_acc:
  "foldl (\<lambda>acc b. acc * 256 + unat b) a xs = a * 256 ^ length xs + be_val xs"
  by (induction xs arbitrary: a rule: rev_induct) (simp_all add: algebra_simps)

lemma be_val_Cons: "be_val (x # xs) = unat x * 256 ^ length xs + be_val xs"
proof -
  have "be_val (x # xs) = foldl (\<lambda>acc b. acc * 256 + unat b) (unat x) xs"
    by (simp add: be_val_def)
  then show ?thesis by (simp only: foldl_be_acc)
qed

lemma be_val_less: "be_val bs < 256 ^ length bs"
proof (induction bs rule: rev_induct)
  case Nil
  then show ?case by simp
next
  case (snoc b bs)
  have "be_val bs * 256 + unat b < (be_val bs + 1) * 256"
    using unat_byte_less [of b] by simp
  also have "\<dots> \<le> 256 ^ length bs * 256"
    using snoc.IH by (intro mult_right_mono) simp_all
  finally show ?case by simp
qed

lemma be_val_be_bytes [simp]: "be_val (be_bytes n) = n"
proof (induction n rule: be_bytes.induct)
  case (1 n)
  show ?case
  proof (cases "n = 0")
    case True
    then show ?thesis by (simp add: be_bytes.simps)
  next
    case False
    then have "be_bytes n = be_bytes (n div 256) @ [of_nat (n mod 256)]"
      by (simp add: be_bytes.simps)
    with 1 False show ?thesis
      by (simp add: unat_of_nat)
  qed
qed

lemma be_bytes_one: "0 < n \<Longrightarrow> n < 256 \<Longrightarrow> be_bytes n = [of_nat n]"
  by (subst be_bytes.simps) simp

lemma be_bytes_two:
  "256 \<le> n \<Longrightarrow> n < 65536 \<Longrightarrow> be_bytes n = [of_nat (n div 256), of_nat (n mod 256)]"
proof -
  assume a: "256 \<le> n" "n < 65536"
  then have "0 < n div 256" by simp
  moreover have "n div 256 < 256" using a(2) by (intro less_mult_imp_div_less) simp
  ultimately show ?thesis using a(1) by (subst be_bytes.simps) (simp add: be_bytes_one)
qed

lemma be_bytes_Nil_iff [simp]: "be_bytes n = [] \<longleftrightarrow> n = 0"
  by (subst be_bytes.simps) simp

lemma be_bytes_hd: "0 < n \<Longrightarrow> hd (be_bytes n) \<noteq> 0"
proof (induction n rule: be_bytes.induct)
  case (1 n)
  show ?case
  proof (cases "n div 256 = 0")
    case True
    then have "n < 256" by simp
    with 1 True have "be_bytes n = [of_nat n]"
      by (subst be_bytes.simps) (simp add: be_bytes.simps)
    moreover have "(of_nat n :: byte) \<noteq> 0"
      using 1 \<open>n < 256\<close> by (simp add: byte_of_nat_nonzero)
    ultimately show ?thesis by simp
  next
    case False
    with 1 show ?thesis
      by (subst be_bytes.simps) simp
  qed
qed

lemma length_be_bytes_le: "length (be_bytes n) \<le> k \<longleftrightarrow> n < 256 ^ k"
proof (induction n arbitrary: k rule: be_bytes.induct)
  case (1 n)
  show ?case
  proof (cases "n = 0")
    case True
    then show ?thesis by simp
  next
    case False
    then have bb: "be_bytes n = be_bytes (n div 256) @ [of_nat (n mod 256)]"
      by (simp add: be_bytes.simps)
    show ?thesis
    proof (cases k)
      case 0
      with False bb show ?thesis by simp
    next
      case (Suc j)
      have "length (be_bytes (n div 256)) \<le> j \<longleftrightarrow> n div 256 < 256 ^ j"
        using 1 False by simp
      moreover have "n div 256 < 256 ^ j \<longleftrightarrow> n < 256 ^ Suc j"
        by (simp add: div_less_iff_less_mult mult.commute)
      ultimately show ?thesis using bb Suc by simp
    qed
  qed
qed

lemma be_bytes_be_val: "bs \<noteq> [] \<Longrightarrow> hd bs \<noteq> 0 \<Longrightarrow> be_bytes (be_val bs) = bs"
proof (induction bs rule: rev_induct)
  case Nil
  then show ?case by simp
next
  case (snoc b xs)
  show ?case
  proof (cases "xs = []")
    case True
    with snoc.prems have "unat b \<noteq> 0" by (simp add: unat_eq_zero)
    then have "be_bytes (unat b) = [of_nat (unat b)]"
      using unat_byte_less [of b] by (subst be_bytes.simps) (simp add: be_bytes.simps)
    with True show ?thesis by simp
  next
    case False
    with snoc.prems have h: "hd xs \<noteq> 0" by simp
    obtain x ys where xs: "xs = x # ys" using False by (cases xs) auto
    have "0 < be_val xs"
      using h xs by (simp add: be_val_Cons unat_gt_0)
    then have "be_val xs * 256 + unat b \<noteq> 0" by simp
    then have "be_bytes (be_val (xs @ [b])) = be_bytes (be_val xs) @ [of_nat (unat b)]"
      using unat_byte_less [of b] by (subst be_bytes.simps) simp
    with snoc.IH [OF False h] show ?thesis by simp
  qed
qed

lemma unat_of_nat_byte: "n < 256 \<Longrightarrow> unat (of_nat n :: byte) = n"
  by (simp add: unat_of_nat)

lemma of_nat_unat_byte [simp]: "(of_nat (unat b) :: byte) = b"
  by simp

lemma decode_len_encode_len:
  assumes "n < der_bound"
  shows "decode_len (encode_len n @ rest) = Some (n, rest)"
proof (cases "n < 128")
  case True
  then show ?thesis by (simp add: encode_len_def decode_len_def unat_of_nat_byte)
next
  case False
  let ?k = "length (be_bytes n)"
  have k: "?k \<le> 126" using assms by (simp add: length_be_bytes_le der_bound_def)
  have k0: "?k \<noteq> 0" using False by simp
  have u: "unat (of_nat (128 + ?k) :: byte) = 128 + ?k"
    using k by (intro unat_of_nat_byte) simp
  have hd: "hd (be_bytes n) \<noteq> 0" using False by (intro be_bytes_hd) simp
  show ?thesis
    using False k k0 u hd by (simp add: encode_len_def decode_len_def Let_def)
qed

lemma decode_len_Some:
  assumes "decode_len bs = Some (n, rest)"
  shows "bs = encode_len n @ rest"
proof (cases bs)
  case Nil
  with assms show ?thesis by (simp add: decode_len_def)
next
  case (Cons b r)
  show ?thesis
  proof (cases "unat b < 128")
    case True
    with assms Cons show ?thesis by (auto simp: decode_len_def encode_len_def)
  next
    case False
    let ?k = "unat b - 128"
    let ?lb = "take ?k r"
    have ok: "?k \<noteq> 0" "?k \<le> 126" "?k \<le> length r" "hd ?lb \<noteq> 0" "128 \<le> be_val ?lb"
      and n: "n = be_val ?lb" and rest: "rest = drop ?k r"
      using assms Cons False by (auto simp: decode_len_def Let_def split: if_splits)
    have lb: "?lb \<noteq> []" using ok(1,3) by (cases r) auto
    have bb: "be_bytes n = ?lb"
      using be_bytes_be_val [OF lb ok(4)] n by simp
    have len: "length (be_bytes n) = ?k" using bb ok by simp
    have "(of_nat (128 + ?k) :: byte) = b" using False by simp
    with bb len n ok(5) show ?thesis
      by (simp add: Cons encode_len_def rest)
  qed
qed

lemma decode_len_append:
  "decode_len xs = Some (n, r) \<Longrightarrow> decode_len (xs @ z) = Some (n, r @ z)"
  by (cases xs) (auto simp: decode_len_def Let_def split: if_splits)

lemma der_tlv_encode_tlv:
  "length c < der_bound \<Longrightarrow> der_tlv (encode_tlv t c @ rest) = Some (t, c, rest)"
  by (simp add: der_tlv_def encode_tlv_def decode_len_encode_len [where rest = "c @ rest", simplified])

lemma der_tlv_Some:
  assumes "der_tlv bs = Some (t, c, rest)"
  shows "bs = encode_tlv t c @ rest"
proof -
  obtain r where bs: "bs = t # r"
    using assms by (cases bs) (auto simp: der_tlv_def split: option.splits if_splits)
  obtain n r' where dl: "decode_len r = Some (n, r')" and le: "n \<le> length r'"
      and c: "c = take n r'" and rest: "rest = drop n r'"
    using assms bs by (auto simp: der_tlv_def split: option.splits if_splits)
  have "length c = n" using c le by simp
  then show ?thesis
    using decode_len_Some [OF dl] bs c rest by (simp add: encode_tlv_def)
qed

lemma der_tlv_append:
  "der_tlv xs = Some (t, c, r) \<Longrightarrow> der_tlv (xs @ z) = Some (t, c, r @ z)"
  by (cases xs) (auto simp: der_tlv_def decode_len_append split: option.splits if_splits)

lemma der_tlv_prefix:
  assumes "der_tlv p = Some (t', c', [])" and "p @ z = encode_tlv t c" and "length c < der_bound"
  shows "z = [] \<and> t' = t \<and> c' = c"
proof -
  have "der_tlv (encode_tlv t c) = Some (t', c', z)"
    using der_tlv_append [OF assms(1), of z] assms(2) by simp
  moreover have "der_tlv (encode_tlv t c) = Some (t, c, [])"
    using der_tlv_encode_tlv [OF assms(3), of t "[]"] by simp
  ultimately show ?thesis by simp
qed

lemma sint_byte_range: "- 128 \<le> sint (b :: byte) \<and> sint b < 128"
  using sint_ge [of b] sint_lt [of b] by simp

lemma sint_word_of_int_byte: "- 128 \<le> i \<Longrightarrow> i < 128 \<Longrightarrow> sint (word_of_int i :: byte) = i"
  by (simp add: sint_sbintrunc' signed_take_bit_int_eq_self)

lemma uint_word_of_int_byte: "uint (word_of_int i :: byte) = i mod 256"
  by (simp add: uint_word_of_int)

lemma int_unat_word_of_int_byte: "int (unat (word_of_int i :: byte)) = i mod 256"
  by (metis uint_nat uint_word_of_int_byte)

lemma enc_int_not_Nil [simp]: "enc_int i \<noteq> []"
  by (subst enc_int.simps) (simp del: enc_int.simps)

lemma dec_int_snoc:
  "xs \<noteq> [] \<Longrightarrow> dec_int (xs @ [b]) = dec_int xs * 256 + int (unat b)"
  by (cases xs) (simp_all add: algebra_simps)

lemma dec_enc_int [simp]: "dec_int (enc_int i) = i"
proof (induction i rule: enc_int.induct)
  case (1 i)
  show ?case
  proof (cases "- 128 \<le> i \<and> i < 128")
    case True
    then show ?thesis by (subst enc_int.simps) (simp add: sint_word_of_int_byte)
  next
    case False
    then have "enc_int i = enc_int (i div 256) @ [word_of_int (i mod 256)]"
      by (subst enc_int.simps) auto
    with 1 False show ?thesis
      by (simp add: dec_int_snoc int_unat_word_of_int_byte uint_word_of_int_byte)
  qed
qed

lemma int_fits_Suc: "int_fits (Suc k) i \<longleftrightarrow> int_fits k (i div 256)"
proof -
  have a: "a \<le> i div 256 \<longleftrightarrow> a * 256 \<le> i" for a :: int by linarith
  have b: "i div 256 < a \<longleftrightarrow> i < a * 256" for a :: int by linarith
  show ?thesis
    unfolding int_fits_def using a [of "- (128 * 256 ^ k)"] b [of "128 * 256 ^ k"]
    by (simp add: algebra_simps)
qed

lemma int_fits_0: "int_fits 0 i \<longleftrightarrow> - 128 \<le> i \<and> i < 128"
  by (simp add: int_fits_def)

lemma int_fits_mono: "int_fits k i \<Longrightarrow> k \<le> m \<Longrightarrow> int_fits m i"
proof -
  assume f: "int_fits k i" and km: "k \<le> m"
  have "(256 :: int) ^ k \<le> 256 ^ m" using km by (intro power_increasing) simp_all
  with f show ?thesis unfolding int_fits_def by linarith
qed

lemma length_enc_int: "length (enc_int i) \<le> Suc k \<longleftrightarrow> int_fits k i"
proof (induction i arbitrary: k rule: enc_int.induct)
  case (1 i)
  show ?case
  proof (cases "- 128 \<le> i \<and> i < 128")
    case True
    then have "enc_int i = [word_of_int i]" by (subst enc_int.simps) simp
    moreover have "int_fits k i"
      using True int_fits_mono [of 0 i k] by (simp add: int_fits_0)
    ultimately show ?thesis by simp
  next
    case False
    then have e: "enc_int i = enc_int (i div 256) @ [word_of_int (i mod 256)]"
      by (subst enc_int.simps) auto
    show ?thesis
    proof (cases k)
      case 0
      with False e show ?thesis by (simp add: int_fits_0)
    next
      case (Suc j)
      with 1 [OF False, of j] e show ?thesis by (simp add: int_fits_Suc)
    qed
  qed
qed

lemma sint_byte_inj: "sint (b :: byte) = sint c \<Longrightarrow> b = c"
  by (metis signed_word_eqI)

lemma byte_less_0x80: "(b :: byte) < 128 \<longleftrightarrow> uint b < 128"
  by (simp add: word_less_def)

lemma byte_ge_0x80: "128 \<le> (b :: byte) \<longleftrightarrow> 128 \<le> uint b"
  by (simp add: word_le_def)

lemma sint_byte_0xFF: "sint (0xFF :: byte) = - 1"
  by simp

lemma dec_int_Cons2:
  "dec_int (b0 # b1 # r) = (sint b0 * 256 + int (unat b1)) * 256 ^ length r + int (be_val r)"
  by (simp add: be_val_Cons algebra_simps)

text \<open>The two leading octets, read as one signed 16-bit value, decide minimality.\<close>

lemma two_octets:
  fixes s u :: int
  assumes "- 128 \<le> s" "s < 128" "0 \<le> u" "u < 256"
  shows "(- 128 \<le> s * 256 + u \<and> s * 256 + u < 128) \<longleftrightarrow> (s = 0 \<and> u < 128) \<or> (s = - 1 \<and> 128 \<le> u)"
proof
  assume c: "- 128 \<le> s * 256 + u \<and> s * 256 + u < 128"
  then have "s \<le> 0" "- 1 \<le> s" using assms by linarith+
  then have "s = 0 \<or> s = - 1" by linarith
  with c show "(s = 0 \<and> u < 128) \<or> (s = - 1 \<and> 128 \<le> u)" by auto
next
  assume "(s = 0 \<and> u < 128) \<or> (s = - 1 \<and> 128 \<le> u)"
  with assms show "- 128 \<le> s * 256 + u \<and> s * 256 + u < 128" by auto
qed

lemma int_minimal_Cons2:
  "int_minimal (b0 # b1 # r) \<longleftrightarrow>
     \<not> (- 128 \<le> sint b0 * 256 + int (unat b1) \<and> sint b0 * 256 + int (unat b1) < 128)"
proof -
  let ?s = "sint b0" and ?u = "int (unat b1)"
  have rs: "- 128 \<le> ?s" "?s < 128" using sint_byte_range [of b0] by simp_all
  have ru: "0 \<le> ?u" "?u < 256" using unat_byte_less [of b1] by linarith+
  have z: "b0 = 0 \<longleftrightarrow> ?s = 0" using sint_byte_inj [of b0 0] by auto
  have f: "b0 = 0xFF \<longleftrightarrow> ?s = - 1" using sint_byte_inj [of b0 "0xFF"] by auto
  have "(- 128 \<le> ?s * 256 + ?u \<and> ?s * 256 + ?u < 128) \<longleftrightarrow> (?s = 0 \<and> ?u < 128) \<or> (?s = - 1 \<and> 128 \<le> ?u)"
    using two_octets [OF rs ru] .
  then show ?thesis
    by (simp add: z f byte_less_0x80 byte_ge_0x80 not_less)
qed

lemma fits_scaled:
  fixes c e p :: int
  assumes "0 \<le> e" "e < p"
  shows "- (128 * p) \<le> c * p + e \<and> c * p + e < 128 * p \<longleftrightarrow> - 128 \<le> c \<and> c < 128"
proof
  assume a: "- (128 * p) \<le> c * p + e \<and> c * p + e < 128 * p"
  show "- 128 \<le> c \<and> c < 128"
  proof (rule conjI; rule ccontr)
    assume "\<not> - 128 \<le> c"
    then have "c * p \<le> - 129 * p" using assms by (intro mult_right_mono) simp_all
    with a assms show False by linarith
  next
    assume "\<not> c < 128"
    then have "128 * p \<le> c * p" using assms by (intro mult_right_mono) simp_all
    with a assms show False by linarith
  qed
next
  assume a: "- 128 \<le> c \<and> c < 128"
  have p: "0 \<le> p" using assms by simp
  have "(- 128) * p \<le> c * p" using a p by (intro mult_right_mono) simp_all
  moreover have "c * p \<le> 127 * p" using a p by (intro mult_right_mono) simp_all
  ultimately show "- (128 * p) \<le> c * p + e \<and> c * p + e < 128 * p" using assms by linarith
qed

lemma dec_int_fits: "int_fits (length xs) (dec_int (b # xs))"
proof -
  let ?p = "(256 :: int) ^ length xs"
  have e: "0 \<le> int (be_val xs)" "int (be_val xs) < ?p"
    using be_val_less [of xs] by (simp_all add: of_nat_less_iff [symmetric])
  have "- 128 \<le> sint b \<and> sint b < 128" by (rule sint_byte_range)
  then show ?thesis
    using fits_scaled [OF e, of "sint b"] by (simp add: int_fits_def)
qed

lemma int_minimal_fits:
  "int_minimal (b0 # b1 # r) \<longleftrightarrow> \<not> int_fits (length r) (dec_int (b0 # b1 # r))"
proof -
  let ?p = "(256 :: int) ^ length r"
  have e: "0 \<le> int (be_val r)" "int (be_val r) < ?p"
    using be_val_less [of r] by (simp_all add: of_nat_less_iff [symmetric])
  show ?thesis
    unfolding int_minimal_Cons2 dec_int_Cons2 int_fits_def
    using fits_scaled [OF e, of "sint b0 * 256 + int (unat b1)"] by simp
qed

lemma base256_digit_eq:
  fixes x y u v :: int
  assumes "x * 256 + u = y * 256 + v" "0 \<le> u" "u < 256" "0 \<le> v" "v < 256"
  shows "x = y \<and> u = v"
proof -
  have "x = (x * 256 + u) div 256" "u = (x * 256 + u) mod 256" using assms(2,3) by simp_all
  moreover have "y = (y * 256 + v) div 256" "v = (y * 256 + v) mod 256" using assms(4,5) by simp_all
  ultimately show ?thesis using assms(1) by metis
qed

lemma dec_int_inj:
  "length xs = length ys \<Longrightarrow> xs \<noteq> [] \<Longrightarrow> dec_int xs = dec_int ys \<Longrightarrow> xs = ys"
proof (induction xs arbitrary: ys rule: rev_induct)
  case Nil
  then show ?case by simp
next
  case (snoc a xs)
  obtain ys' c where ys: "ys = ys' @ [c]"
    using snoc.prems(1) by (cases ys rule: rev_exhaust) auto
  show ?case
  proof (cases "xs = []")
    case True
    with snoc.prems ys have "sint a = sint c" by simp
    with True snoc.prems ys show ?thesis by (simp add: sint_byte_inj)
  next
    case False
    have ys': "ys' \<noteq> []" using False snoc.prems(1) ys by auto
    have "dec_int xs * 256 + int (unat a) = dec_int ys' * 256 + int (unat c)"
      using snoc.prems(3) ys False ys' by (simp add: dec_int_snoc)
    moreover have "0 \<le> int (unat a)" "int (unat a) < 256" "0 \<le> int (unat c)" "int (unat c) < 256"
      using unat_byte_less [of a] unat_byte_less [of c] by linarith+
    ultimately have "dec_int xs = dec_int ys' \<and> int (unat a) = int (unat c)"
      by (rule base256_digit_eq)
    then have "dec_int xs = dec_int ys'" "a = c" by (simp_all add: word_uint_eq_iff)
    then show ?thesis
      using snoc.IH [of ys'] False snoc.prems(1) ys by simp
  qed
qed

lemma int_minimal_enc_int: "int_minimal (enc_int i)"
proof (cases "enc_int i")
  case Nil
  then show ?thesis by simp
next
  case (Cons b xs)
  show ?thesis
  proof (cases xs)
    case Nil
    with Cons show ?thesis by simp
  next
    case (Cons b1 r)
    show ?thesis
    proof (rule ccontr)
      assume nm: "\<not> int_minimal (enc_int i)"
      have e: "enc_int i = b # b1 # r" using \<open>enc_int i = b # xs\<close> Cons by simp
      have d: "dec_int (b # b1 # r) = i" using e dec_enc_int [of i] by metis
      have "\<not> int_minimal (b # b1 # r)" using nm unfolding e .
      then have "int_fits (length r) (dec_int (b # b1 # r))"
        using int_minimal_fits [of b b1 r] by blast
      then have "length (enc_int i) \<le> Suc (length r)"
        using d by (simp add: length_enc_int)
      with \<open>enc_int i = b # xs\<close> Cons show False by simp
    qed
  qed
qed

lemma enc_int_dec_int:
  assumes "int_minimal bs"
  shows "enc_int (dec_int bs) = bs"
proof -
  obtain b xs where bs: "bs = b # xs" using assms by (cases bs) auto
  have le: "length (enc_int (dec_int bs)) \<le> length bs"
    using dec_int_fits [of xs b] bs by (simp add: length_enc_int)
  have ge: "length bs \<le> length (enc_int (dec_int bs))"
  proof (cases xs)
    case Nil
    then show ?thesis using bs by (simp add: Suc_le_eq)
  next
    case (Cons b1 r)
    then have "\<not> int_fits (length r) (dec_int bs)"
      using assms bs int_minimal_fits by simp
    then have "\<not> length (enc_int (dec_int bs)) \<le> Suc (length r)"
      by (simp add: length_enc_int)
    with Cons bs show ?thesis by simp
  qed
  from le ge have "length (enc_int (dec_int bs)) = length bs" by simp
  then show ?thesis
    by (rule dec_int_inj) (simp_all)
qed

lemma small_lt_der_bound: "n < 256 ^ 4 \<Longrightarrow> n < der_bound"
  unfolding der_bound_def
  by (erule less_le_trans, rule power_increasing) simp_all

lemma decode_len_bound:
  assumes "decode_len bs = Some (n, r)"
  shows "n < der_bound"
proof (cases bs)
  case Nil
  with assms show ?thesis by (simp add: decode_len_def)
next
  case (Cons b r')
  show ?thesis
  proof (cases "unat b < 128")
    case True
    with assms Cons show ?thesis by (auto simp: decode_len_def intro: small_lt_der_bound)
  next
    case False
    let ?k = "unat b - 128"
    have k: "?k \<le> 126" and n: "n = be_val (take ?k r')"
      using assms Cons False by (auto simp: decode_len_def Let_def split: if_splits)
    have "n < 256 ^ length (take ?k r')" unfolding n by (rule be_val_less)
    also have "\<dots> \<le> 256 ^ 126" using k by (intro power_increasing) simp_all
    finally show ?thesis by (simp add: der_bound_def)
  qed
qed

lemma der_tlv_bound:
  assumes "der_tlv bs = Some (t, c, r)"
  shows "length c < der_bound"
proof -
  obtain r0 n r' where "decode_len r0 = Some (n, r')" "n \<le> length r'" "c = take n r'"
    using assms by (cases bs) (auto simp: der_tlv_def split: option.splits if_splits)
  then show ?thesis using decode_len_bound by fastforce
qed

lemma length_encode_tlv: "length (encode_tlv t c) = Suc (length (encode_len (length c)) + length c)"
  by (simp add: encode_tlv_def)

lemma expect_tlv_Some: "expect_tlv t bs = Some (c, r) \<Longrightarrow> bs = encode_tlv t c @ r"
  by (auto simp: expect_tlv_def dest: der_tlv_Some split: option.splits if_splits)

lemma expect_tlv_encode:
  "length c < der_bound \<Longrightarrow> expect_tlv t (encode_tlv t c @ r) = Some (c, r)"
  by (simp add: expect_tlv_def der_tlv_encode_tlv)

lemma opt_tlv_opt_enc:
  assumes "length (opt_enc t x) < der_bound" "x = None \<Longrightarrow> r = [] \<or> hd r \<noteq> t"
  shows "opt_tlv t (opt_enc t x @ r) = Some (x, r)"
proof (cases x)
  case None
  with assms(2) show ?thesis by (cases r) (auto simp: opt_tlv_def)
next
  case (Some c)
  then have "length c < der_bound" using assms(1) by (simp add: encode_tlv_def)
  then have e: "expect_tlv t (encode_tlv t c @ r) = Some (c, r)" by (rule expect_tlv_encode)
  obtain z where z: "encode_tlv t c @ r = t # z" by (simp add: encode_tlv_def)
  show ?thesis using e unfolding Some opt_enc.simps z by (simp add: opt_tlv_def)
qed

lemma expect_tlv_shorter: "expect_tlv t bs = Some (c, r) \<Longrightarrow> length r < length bs"
  by (drule expect_tlv_Some) (simp add: encode_tlv_def)

lemma dec_bool_default_enc:
  assumes "\<not> b \<Longrightarrow> r = [] \<or> hd r \<noteq> 0x01"
  shows "dec_bool_default (enc_bool_default b @ r) = Some (b, r)"
proof (cases b)
  case True
  have "length (opt_enc 0x01 (Some [0xFF])) < der_bound"
    by (rule small_lt_der_bound) (simp add: encode_tlv_def encode_len_def)
  then have "opt_tlv 0x01 (opt_enc 0x01 (Some [0xFF]) @ r) = Some (Some [0xFF], r)"
    by (rule opt_tlv_opt_enc) simp
  with True show ?thesis by (simp add: dec_bool_default_def enc_bool_default_def)
next
  case False
  have "length (opt_enc 0x01 None) < der_bound"
    by (rule small_lt_der_bound) simp
  then have "opt_tlv 0x01 (opt_enc 0x01 None @ r) = Some (None, r)"
    by (rule opt_tlv_opt_enc) (use assms False in simp)
  with False show ?thesis by (simp add: dec_bool_default_def enc_bool_default_def)
qed

lemma opt_tlv_Some:
  assumes "opt_tlv t bs = Some (x, r)"
  shows "bs = opt_enc t x @ r"
proof (cases bs)
  case Nil
  with assms show ?thesis by (simp add: opt_tlv_def)
next
  case (Cons b z)
  show ?thesis
  proof (cases "b = t")
    case True
    with assms Cons obtain c where "expect_tlv t bs = Some (c, r)" "x = Some c"
      by (auto simp: opt_tlv_def)
    then show ?thesis using expect_tlv_Some by simp
  next
    case False
    with assms Cons show ?thesis by (simp add: opt_tlv_def)
  qed
qed

lemma dec_bool_default_Some:
  assumes "dec_bool_default bs = Some (b, r)"
  shows "bs = enc_bool_default b @ r"
proof -
  obtain x r' where o: "opt_tlv 0x01 bs = Some (x, r')"
    and k: "(case x of None \<Rightarrow> Some (False, r')
              | Some c \<Rightarrow> if c = [0xFF] then Some (True, r') else None) = Some (b, r)"
    using assms by (auto simp: dec_bool_default_def bind_eq_Some_conv)
  show ?thesis
  proof (cases x)
    case None
    with k opt_tlv_Some [OF o] show ?thesis by (simp add: enc_bool_default_def)
  next
    case (Some c)
    with k opt_tlv_Some [OF o] show ?thesis by (simp add: enc_bool_default_def split: if_splits)
  qed
qed

lemma encode_tlv_hd: "encode_tlv t c @ r = t # (encode_len (length c) @ c @ r)"
  by (simp add: encode_tlv_def)

lemma opt_enc_lead:
  "r = [] \<or> hd r \<in> S \<Longrightarrow> opt_enc t x @ r = [] \<or> hd (opt_enc t x @ r) \<in> insert t S"
  by (cases x) (auto simp: encode_tlv_def)

lemma enc_bool_default_lead:
  "r = [] \<or> hd r \<in> S \<Longrightarrow> enc_bool_default b @ r = [] \<or> hd (enc_bool_default b @ r) \<in> insert 0x01 S"
  by (auto simp: enc_bool_default_def encode_tlv_def)

lemma expect_tlv_der_tlv: "expect_tlv t p = Some (c, r) \<Longrightarrow> der_tlv p = Some (t, c, r)"
  by (auto simp: expect_tlv_def split: option.splits if_splits)

text \<open>
  The decoder's INTEGER check looks at the first two content octets only: it refuses
  a leading 0x00 before an octet below 0x80 and a leading 0xFF before an octet from 0x80.
  That check accepts exactly the octet strings that are the minimal encoding of their own
  value, that is, that re-encode to themselves.
\<close>

theorem der_integer_check_canonical:
  "int_minimal bs \<longleftrightarrow> bs \<noteq> [] \<and> enc_int (dec_int bs) = bs"
proof
  assume m: "int_minimal bs"
  then have "bs \<noteq> []" by (cases bs) simp_all
  with enc_int_dec_int [OF m] show "bs \<noteq> [] \<and> enc_int (dec_int bs) = bs" by simp
next
  assume "bs \<noteq> [] \<and> enc_int (dec_int bs) = bs"
  then show "int_minimal bs"
    using int_minimal_enc_int [of "dec_int bs"] by simp
qed

end
