(* ===== verification/Tsp_Codec.thy ===== *)
theory Tsp_Codec
  imports Der Tsp_Types
begin

text \<open>
  The request codec of spec section 4.1 for the \<open>TimeStampReq\<close> of RFC 3161:
  \<^verbatim>\<open>SEQUENCE { version INTEGER, messageImprint MessageImprint, reqPolicy OID OPTIONAL,
  nonce INTEGER OPTIONAL, certReq BOOLEAN DEFAULT FALSE, extensions [0] IMPLICIT
  Extensions OPTIONAL }\<close>, with \<open>MessageImprint\<close>, \<open>AlgorithmIdentifier\<close> (its
  parameters one element of any tag) and \<open>Extension\<close> (its critical flag DEFAULT FALSE).
  The decoder checks every tag, length, INTEGER and OID, refuses an empty extension list
  and trailing octets, and returns nothing on any malformed input: no partial request
  reaches later stages. A request is well formed when its OIDs are valid; the round trip
  holds for well-formed requests whose encoding fits the length form, and every accepted
  input is the canonical encoding of the request decoded from it.
\<close>

section \<open>Encoders and decoders\<close>

subsection \<open>AlgorithmIdentifier and MessageImprint\<close>

definition enc_alg :: "AlgorithmIdentifier \<Rightarrow> byte list" where
  "enc_alg a =
     encode_tlv 0x30 (encode_tlv 0x06 (algorithm a)
       @ (case parameters a of None \<Rightarrow> [] | Some (t, pc) \<Rightarrow> encode_tlv t pc))"

definition dec_alg :: "AlgorithmIdentifier der_parser" where
  "dec_alg bs = do {
     (c, rest) \<leftarrow> expect_tlv 0x30 bs;
     (a, r) \<leftarrow> expect_tlv 0x06 c;
     if \<not> valid_oid a then None
     else if r = [] then Some (\<lparr>algorithm = a, parameters = None\<rparr>, rest)
     else do {
       (t, pc, r2) \<leftarrow> der_tlv r;
       if r2 = [] then Some (\<lparr>algorithm = a, parameters = Some (t, pc)\<rparr>, rest) else None
     }
   }"

definition enc_imprint :: "MessageImprint \<Rightarrow> byte list" where
  "enc_imprint m = encode_tlv 0x30 (enc_alg (hashAlgorithm m) @ encode_tlv 0x04 (hashedMessage m))"

definition dec_imprint :: "MessageImprint der_parser" where
  "dec_imprint bs = do {
     (c, rest) \<leftarrow> expect_tlv 0x30 bs;
     (alg, r) \<leftarrow> dec_alg c;
     (h, r2) \<leftarrow> expect_tlv 0x04 r;
     if r2 = [] then Some (\<lparr>hashAlgorithm = alg, hashedMessage = h\<rparr>, rest) else None
   }"

subsection \<open>Extensions\<close>

definition enc_ext :: "Extension \<Rightarrow> byte list" where
  "enc_ext e =
     encode_tlv 0x30 (encode_tlv 0x06 (extnID e) @ enc_bool_default (critical e)
       @ encode_tlv 0x04 (extnValue e))"

definition dec_ext :: "Extension der_parser" where
  "dec_ext bs = do {
     (c, rest) \<leftarrow> expect_tlv 0x30 bs;
     (i, r) \<leftarrow> expect_tlv 0x06 c;
     if \<not> valid_oid i then None
     else do {
       (crit, r2) \<leftarrow> dec_bool_default r;
       (v, r3) \<leftarrow> expect_tlv 0x04 r2;
       if r3 = [] then Some (\<lparr>extnID = i, critical = crit, extnValue = v\<rparr>, rest) else None
     }
   }"

function dec_ext_list :: "byte list \<Rightarrow> Extension list option" where
  "dec_ext_list bs =
     (if bs = [] then Some []
      else case dec_ext bs of
        None \<Rightarrow> None
      | Some (e, r) \<Rightarrow> map_option (Cons e) (dec_ext_list r))"
  by pat_completeness auto
termination
  by (relation "measure length")
     (auto simp: dec_ext_def bind_eq_Some_conv split: if_splits prod.splits dest!: expect_tlv_shorter)

definition enc_exts :: "byte \<Rightarrow> Extension list \<Rightarrow> byte list" where
  "enc_exts t es = (if es = [] then [] else encode_tlv t (concat (map enc_ext es)))"

definition dec_exts :: "byte \<Rightarrow> Extension list der_parser" where
  "dec_exts t bs = do {
     (x, r) \<leftarrow> opt_tlv t bs;
     case x of
       None \<Rightarrow> Some ([], r)
     | Some c \<Rightarrow> if c = [] then None else do { es \<leftarrow> dec_ext_list c; Some (es, r) }
   }"

subsection \<open>Optional fields and the request\<close>

definition dec_opt_oid :: "oid option der_parser" where
  "dec_opt_oid bs = do {
     (x, r) \<leftarrow> opt_tlv 0x06 bs;
     case x of None \<Rightarrow> Some (None, r) | Some c \<Rightarrow> if valid_oid c then Some (Some c, r) else None
   }"

definition dec_opt_int :: "int option der_parser" where
  "dec_opt_int bs = do {
     (x, r) \<leftarrow> opt_tlv 0x02 bs;
     case x of None \<Rightarrow> Some (None, r) | Some c \<Rightarrow> if int_minimal c then Some (Some (dec_int c), r) else None
   }"

definition req_body :: "TimeStampReq \<Rightarrow> byte list" where
  "req_body r =
     encode_tlv 0x02 (enc_int (req_version r)) @ enc_imprint (messageImprint r)
     @ opt_enc 0x06 (reqPolicy r) @ opt_enc 0x02 (map_option enc_int (nonce r))
     @ enc_bool_default (certReq r) @ enc_exts 0xA0 (extensions r)"

definition enc_req :: "TimeStampReq \<Rightarrow> byte list" where
  "enc_req r = encode_tlv 0x30 (req_body r)"

definition dec_req :: "byte list \<Rightarrow> TimeStampReq option" where
  "dec_req bs = do {
     (c, rest) \<leftarrow> expect_tlv 0x30 bs;
     if rest \<noteq> [] then None else do {
       (vc, c1) \<leftarrow> expect_tlv 0x02 c;
       if \<not> int_minimal vc then None else do {
         (m, c2) \<leftarrow> dec_imprint c1;
         (pol, c3) \<leftarrow> dec_opt_oid c2;
         (n, c4) \<leftarrow> dec_opt_int c3;
         (cr, c5) \<leftarrow> dec_bool_default c4;
         (es, c6) \<leftarrow> dec_exts 0xA0 c5;
         if c6 \<noteq> [] then None
         else Some \<lparr>req_version = dec_int vc, messageImprint = m, reqPolicy = pol, nonce = n,
                    certReq = cr, extensions = es\<rparr>
       }
     }
   }"

definition wf_req :: "TimeStampReq \<Rightarrow> bool" where
  "wf_req r \<longleftrightarrow> valid_oid (algorithm (hashAlgorithm (messageImprint r)))
     \<and> pred_option valid_oid (reqPolicy r) \<and> list_all (\<lambda>e. valid_oid (extnID e)) (extensions r)"

subsection \<open>A request of the spec's first example, with a nonce and certReq set\<close>

definition ex_req :: TimeStampReq where
  "ex_req = \<lparr>req_version = 1,
     messageImprint = \<lparr>hashAlgorithm = \<lparr>algorithm = oid_sha256, parameters = Some (0x05, [])\<rparr>,
                       hashedMessage = replicate 32 0\<rparr>,
     reqPolicy = None, nonce = Some 300, certReq = True, extensions = []\<rparr>"

declare dec_ext_list.simps [simp del]

section \<open>Properties of the parts\<close>

lemma dec_alg_enc_alg:
  assumes "valid_oid (algorithm a)" "length (enc_alg a) < der_bound"
  shows "dec_alg (enc_alg a @ rest) = Some (a, rest)"
proof -
  let ?p = "case parameters a of None \<Rightarrow> [] | Some (t, pc) \<Rightarrow> encode_tlv t pc"
  let ?c = "encode_tlv 0x06 (algorithm a) @ ?p"
  have c: "length ?c < der_bound" using assms(2) by (simp add: enc_alg_def length_encode_tlv)
  then have o: "length (algorithm a) < der_bound" by (simp add: length_encode_tlv)
  have outer: "expect_tlv 0x30 (enc_alg a @ rest) = Some (?c, rest)"
    unfolding enc_alg_def using c by (simp add: expect_tlv_encode)
  have inner: "expect_tlv 0x06 ?c = Some (algorithm a, ?p)"
    using expect_tlv_encode [OF o, of "0x06" ?p] by simp
  show ?thesis
  proof (cases "parameters a")
    case None
    then show ?thesis using outer inner assms(1) by (simp add: dec_alg_def)
  next
    case (Some tp)
    obtain t pc where tp: "tp = (t, pc)" by fastforce
    have "length pc < der_bound"
      using c Some tp by (simp add: length_encode_tlv)
    then have "der_tlv (encode_tlv t pc) = Some (t, pc, [])"
      using der_tlv_encode_tlv [of pc t "[]"] by simp
    moreover have "encode_tlv t pc \<noteq> []" by (simp add: encode_tlv_def)
    ultimately show ?thesis using outer inner assms(1) Some tp
      by (cases a) (simp add: dec_alg_def)
  qed
qed

lemma dec_alg_Some:
  assumes "dec_alg bs = Some (a, rest)"
  shows "valid_oid (algorithm a) \<and> bs = enc_alg a @ rest"
  using assms
  by (auto simp: dec_alg_def enc_alg_def bind_eq_Some_conv
           split: if_splits prod.splits dest!: expect_tlv_Some der_tlv_Some)

lemma dec_imprint_enc_imprint:
  assumes "valid_oid (algorithm (hashAlgorithm m))" "length (enc_imprint m) < der_bound"
  shows "dec_imprint (enc_imprint m @ rest) = Some (m, rest)"
proof -
  let ?c = "enc_alg (hashAlgorithm m) @ encode_tlv 0x04 (hashedMessage m)"
  have c: "length ?c < der_bound" using assms(2) by (simp add: enc_imprint_def length_encode_tlv)
  then have a: "length (enc_alg (hashAlgorithm m)) < der_bound" and h: "length (hashedMessage m) < der_bound"
    by (simp_all add: length_encode_tlv)
  have "expect_tlv 0x30 (enc_imprint m @ rest) = Some (?c, rest)"
    unfolding enc_imprint_def using c by (simp add: expect_tlv_encode)
  moreover have "dec_alg ?c = Some (hashAlgorithm m, encode_tlv 0x04 (hashedMessage m))"
    by (rule dec_alg_enc_alg [OF assms(1) a])
  moreover have "expect_tlv 0x04 (encode_tlv 0x04 (hashedMessage m)) = Some (hashedMessage m, [])"
    using expect_tlv_encode [OF h, of "0x04" "[]"] by simp
  ultimately show ?thesis by (simp add: dec_imprint_def)
qed

lemma dec_imprint_Some:
  assumes "dec_imprint bs = Some (m, rest)"
  shows "valid_oid (algorithm (hashAlgorithm m)) \<and> bs = enc_imprint m @ rest"
  using assms
  by (auto simp: dec_imprint_def enc_imprint_def bind_eq_Some_conv
           split: if_splits prod.splits dest!: expect_tlv_Some dec_alg_Some)

lemma dec_ext_enc_ext:
  assumes "valid_oid (extnID e)" "length (enc_ext e) < der_bound"
  shows "dec_ext (enc_ext e @ rest) = Some (e, rest)"
proof -
  let ?tail = "enc_bool_default (critical e) @ encode_tlv 0x04 (extnValue e)"
  let ?c = "encode_tlv 0x06 (extnID e) @ ?tail"
  have c: "length ?c < der_bound" using assms(2) by (simp add: enc_ext_def length_encode_tlv)
  then have i: "length (extnID e) < der_bound" and v: "length (extnValue e) < der_bound"
    by (simp_all add: length_encode_tlv)
  have "expect_tlv 0x30 (enc_ext e @ rest) = Some (?c, rest)"
    unfolding enc_ext_def using c by (simp add: expect_tlv_encode)
  moreover have "expect_tlv 0x06 ?c = Some (extnID e, ?tail)"
    using expect_tlv_encode [OF i, of "0x06" ?tail] by simp
  moreover have "dec_bool_default ?tail = Some (critical e, encode_tlv 0x04 (extnValue e))"
    by (rule dec_bool_default_enc) (simp add: encode_tlv_def)
  moreover have "expect_tlv 0x04 (encode_tlv 0x04 (extnValue e)) = Some (extnValue e, [])"
    using expect_tlv_encode [OF v, of "0x04" "[]"] by simp
  ultimately show ?thesis using assms(1) by (simp add: dec_ext_def)
qed

lemma dec_ext_Some:
  assumes "dec_ext bs = Some (e, rest)"
  shows "valid_oid (extnID e) \<and> bs = enc_ext e @ rest"
  using assms
  by (auto simp: dec_ext_def enc_ext_def bind_eq_Some_conv
           split: if_splits prod.splits dest!: expect_tlv_Some dec_bool_default_Some)

lemma enc_ext_not_Nil [simp]: "enc_ext e \<noteq> []"
  by (simp add: enc_ext_def encode_tlv_def)

lemma dec_ext_list_enc:
  "list_all (\<lambda>e. valid_oid (extnID e)) es \<Longrightarrow> length (concat (map enc_ext es)) < der_bound \<Longrightarrow>
     dec_ext_list (concat (map enc_ext es)) = Some es"
proof (induction es)
  case Nil
  then show ?case by (simp add: dec_ext_list.simps)
next
  case (Cons e es)
  have "dec_ext (enc_ext e @ concat (map enc_ext es)) = Some (e, concat (map enc_ext es))"
    using Cons.prems by (intro dec_ext_enc_ext) simp_all
  moreover have "dec_ext_list (concat (map enc_ext es)) = Some es"
    using Cons.prems by (intro Cons.IH) simp_all
  ultimately show ?case by (subst dec_ext_list.simps) simp
qed

lemma dec_ext_list_Some:
  "dec_ext_list bs = Some es \<Longrightarrow>
     list_all (\<lambda>e. valid_oid (extnID e)) es \<and> bs = concat (map enc_ext es)"
proof (induction bs arbitrary: es rule: dec_ext_list.induct)
  case (1 bs)
  show ?case
  proof (cases "bs = []")
    case True
    with "1.prems" show ?thesis by (simp add: dec_ext_list.simps)
  next
    case False
    with "1.prems" obtain e r es' where d: "dec_ext bs = Some (e, r)"
      and l: "dec_ext_list r = Some es'" and es: "es = e # es'"
      by (subst (asm) dec_ext_list.simps) (auto split: option.splits)
    from "1.IH" [OF False d refl l] dec_ext_Some [OF d] es show ?thesis by simp
  qed
qed

lemma enc_exts_lead: "enc_exts t es = [] \<or> hd (enc_exts t es) = t"
  by (simp add: enc_exts_def encode_tlv_def)

lemma dec_opt_oid_enc:
  assumes "pred_option valid_oid p" "length (opt_enc 0x06 p) < der_bound"
    "r = [] \<or> hd r \<noteq> 0x06"
  shows "dec_opt_oid (opt_enc 0x06 p @ r) = Some (p, r)"
  using opt_tlv_opt_enc [of "0x06" p r] assms
  by (cases p) (simp_all add: dec_opt_oid_def)

lemma dec_opt_int_enc:
  assumes "length (opt_enc 0x02 (map_option enc_int n)) < der_bound" "r = [] \<or> hd r \<noteq> 0x02"
  shows "dec_opt_int (opt_enc 0x02 (map_option enc_int n) @ r) = Some (n, r)"
  using opt_tlv_opt_enc [of "0x02" "map_option enc_int n" r] assms
  by (cases n) (simp_all add: dec_opt_int_def int_minimal_enc_int)

lemma dec_exts_enc:
  assumes "list_all (\<lambda>e. valid_oid (extnID e)) es" "length (enc_exts t es) < der_bound"
  shows "dec_exts t (enc_exts t es) = Some (es, [])"
proof (cases "es = []")
  case True
  then show ?thesis by (simp add: dec_exts_def enc_exts_def opt_tlv_def)
next
  case False
  let ?c = "concat (map enc_ext es)"
  have c: "length ?c < der_bound" using assms(2) False by (simp add: enc_exts_def length_encode_tlv)
  have "opt_tlv t (opt_enc t (Some ?c) @ []) = Some (Some ?c, [])"
    using assms(2) False by (intro opt_tlv_opt_enc) (simp_all add: enc_exts_def)
  moreover have "?c \<noteq> []" using False by (cases es) simp_all
  ultimately show ?thesis
    using False dec_ext_list_enc [OF assms(1) c] by (simp add: dec_exts_def enc_exts_def)
qed

lemma dec_opt_oid_Some:
  assumes "dec_opt_oid bs = Some (p, r)"
  shows "pred_option valid_oid p \<and> bs = opt_enc 0x06 p @ r"
proof -
  obtain x r' where o: "opt_tlv 0x06 bs = Some (x, r')"
    and k: "(case x of None \<Rightarrow> Some (None, r') | Some c \<Rightarrow> if valid_oid c then Some (Some c, r') else None)
            = Some (p, r)"
    using assms by (auto simp: dec_opt_oid_def bind_eq_Some_conv)
  from opt_tlv_Some [OF o] k show ?thesis by (cases x) (auto split: if_splits)
qed

lemma dec_opt_int_Some:
  assumes "dec_opt_int bs = Some (n, r)"
  shows "bs = opt_enc 0x02 (map_option enc_int n) @ r"
proof -
  obtain x r' where o: "opt_tlv 0x02 bs = Some (x, r')"
    and k: "(case x of None \<Rightarrow> Some (None, r')
             | Some c \<Rightarrow> if int_minimal c then Some (Some (dec_int c), r') else None) = Some (n, r)"
    using assms by (auto simp: dec_opt_int_def bind_eq_Some_conv)
  from opt_tlv_Some [OF o] k show ?thesis
    by (cases x) (auto split: if_splits simp: enc_int_dec_int)
qed

lemma dec_exts_Some:
  assumes "dec_exts t bs = Some (es, r)"
  shows "list_all (\<lambda>e. valid_oid (extnID e)) es \<and> bs = enc_exts t es @ r"
proof -
  obtain x r' where o: "opt_tlv t bs = Some (x, r')"
    and k: "(case x of None \<Rightarrow> Some ([], r')
             | Some c \<Rightarrow> if c = [] then None else do { es \<leftarrow> dec_ext_list c; Some (es, r') })
            = Some (es, r)"
    using assms by (auto simp: dec_exts_def bind_eq_Some_conv)
  show ?thesis
  proof (cases x)
    case None
    with opt_tlv_Some [OF o] k show ?thesis by (simp add: enc_exts_def)
  next
    case (Some c)
    with k have c: "c \<noteq> []" and l: "dec_ext_list c = Some es" and rr: "r' = r"
      by (auto split: if_splits simp: bind_eq_Some_conv)
    from dec_ext_list_Some [OF l] c have "es \<noteq> []" "c = concat (map enc_ext es)"
      "list_all (\<lambda>e. valid_oid (extnID e)) es" by auto
    with opt_tlv_Some [OF o] Some rr show ?thesis by (simp add: enc_exts_def)
  qed
qed

lemma dec_req_outer: "dec_req p = Some r \<Longrightarrow> \<exists>c. der_tlv p = Some (0x30, c, [])"
  by (auto simp: dec_req_def bind_eq_Some_conv split: if_splits dest!: expect_tlv_der_tlv)

lemma dec_req_truncated:
  assumes "length (req_body r) < der_bound" "k < length (enc_req r)"
  shows "dec_req (take k (enc_req r)) = None"
proof (rule ccontr)
  assume "dec_req (take k (enc_req r)) \<noteq> None"
  then obtain r' where "dec_req (take k (enc_req r)) = Some r'" by auto
  then obtain c where d: "der_tlv (take k (enc_req r)) = Some (0x30, c, [])"
    using dec_req_outer by blast
  have "take k (enc_req r) @ drop k (enc_req r) = encode_tlv 0x30 (req_body r)"
    by (simp add: enc_req_def)
  from der_tlv_prefix [OF d this assms(1)] have "drop k (enc_req r) = []" by simp
  with assms(2) show False by simp
qed

lemma dec_req_trailing:
  assumes "length (req_body r) < der_bound" "z \<noteq> []"
  shows "dec_req (enc_req r @ z) = None"
proof -
  have "expect_tlv 0x30 (enc_req r @ z) = Some (req_body r, z)"
    unfolding enc_req_def by (rule expect_tlv_encode [OF assms(1)])
  with assms(2) show ?thesis by (simp add: dec_req_def)
qed

lemma dec_req_wrong_tag: "t \<noteq> 0x30 \<Longrightarrow> dec_req (t # bs) = None"
  by (simp add: dec_req_def expect_tlv_def der_tlv_def split: option.splits)

lemma ex_req_bytes:
  "enc_req ex_req = [0x30, 0x3D, 0x02, 0x01, 0x01, 0x30, 0x31, 0x30, 0x0D, 0x06, 0x09,
   0x60, 0x86, 0x48, 0x01, 0x65, 0x03, 0x04, 0x02, 0x01, 0x05, 0x00, 0x04, 0x20] @ replicate 32 0 @
   [0x02, 0x02, 0x01, 0x2C, 0x01, 0x01, 0xFF]"
  by (simp add: ex_req_def enc_req_def req_body_def enc_imprint_def enc_alg_def encode_tlv_def
      encode_len_def enc_bool_default_def enc_exts_def oid_sha256_def enc_int.simps)

lemma ex_req_wf: "wf_req ex_req"
  by (simp add: ex_req_def wf_req_def valid_oid_def oid_sha256_def)

lemma ex_req_len: "length (enc_req ex_req) < der_bound"
  by (rule small_lt_der_bound) (simp add: ex_req_bytes)

lemma ex_req_body_len: "length (req_body ex_req) < der_bound"
  by (rule small_lt_der_bound) (simp add: ex_req_def req_body_def enc_imprint_def enc_alg_def
      encode_tlv_def encode_len_def enc_bool_default_def enc_exts_def oid_sha256_def enc_int.simps)

section \<open>Properties of the request codec\<close>

text \<open>
  Round trip: decoding the encoding of a well-formed request whose encoding fits the DER
  length form gives back that request.
\<close>

theorem tsp_request_roundtrip:
  assumes wf: "wf_req r" and len: "length (enc_req r) < der_bound"
  shows "dec_req (enc_req r) = Some r"
proof -
  let ?T4 = "enc_exts 0xA0 (extensions r)"
  let ?T3b = "enc_bool_default (certReq r) @ ?T4"
  let ?T3 = "opt_enc 0x02 (map_option enc_int (nonce r)) @ ?T3b"
  let ?T2 = "opt_enc 0x06 (reqPolicy r) @ ?T3"
  let ?T1 = "enc_imprint (messageImprint r) @ ?T2"
  have body: "req_body r = encode_tlv 0x02 (enc_int (req_version r)) @ ?T1"
    by (simp add: req_body_def)
  have b: "length (req_body r) < der_bound" using len by (simp add: enc_req_def length_encode_tlv)
  then have l: "length (enc_int (req_version r)) < der_bound" "length (enc_imprint (messageImprint r)) < der_bound"
    "length (opt_enc 0x06 (reqPolicy r)) < der_bound"
    "length (opt_enc 0x02 (map_option enc_int (nonce r))) < der_bound"
    "length ?T4 < der_bound"
    by (simp_all add: req_body_def length_encode_tlv)
  have h4: "?T4 = [] \<or> hd ?T4 \<in> {0xA0}" using enc_exts_lead by simp
  have h3b: "?T3b = [] \<or> hd ?T3b \<in> {0x01, 0xA0}" using enc_bool_default_lead [OF h4] by simp
  have h3: "?T3 = [] \<or> hd ?T3 \<in> {0x02, 0x01, 0xA0}" using opt_enc_lead [OF h3b] by simp
  have s0: "expect_tlv 0x30 (enc_req r) = Some (req_body r, [])"
    using expect_tlv_encode [OF b, of "0x30" "[]"] by (simp add: enc_req_def)
  have s1: "expect_tlv 0x02 (req_body r) = Some (enc_int (req_version r), ?T1)"
    unfolding body by (rule expect_tlv_encode [OF l(1)])
  have s2: "dec_imprint ?T1 = Some (messageImprint r, ?T2)"
    using wf l(2) by (intro dec_imprint_enc_imprint) (simp_all add: wf_req_def)
  have s3: "dec_opt_oid ?T2 = Some (reqPolicy r, ?T3)"
    using wf l(3) h3 by (intro dec_opt_oid_enc) (auto simp: wf_req_def)
  have s4: "dec_opt_int ?T3 = Some (nonce r, ?T3b)"
    using l(4) h3b by (intro dec_opt_int_enc) auto
  have s5: "dec_bool_default ?T3b = Some (certReq r, ?T4)"
    using h4 by (intro dec_bool_default_enc) auto
  have s6: "dec_exts 0xA0 ?T4 = Some (extensions r, [])"
    using wf l(5) by (intro dec_exts_enc) (simp_all add: wf_req_def)
  show ?thesis
    using s0 s1 s2 s3 s4 s5 s6 by (simp add: dec_req_def int_minimal_enc_int)
qed

text \<open>
  Canonical decoding: an input the decoder accepts is well formed and is exactly the
  encoding of the request it decodes to. With the round trip, decoding and encoding are
  inverse bijections between well-formed requests and accepted inputs, so equal requests
  always have byte-identical encodings and no two inputs decode to the same request.
\<close>

theorem tsp_request_canonical:
  assumes "dec_req bs = Some r"
  shows "wf_req r \<and> bs = enc_req r"
proof -
  from assms obtain c vc c1 m c2 pol c3 n c4 cr c5 es where
    s0: "expect_tlv 0x30 bs = Some (c, [])" and
    s1: "expect_tlv 0x02 c = Some (vc, c1)" and mi: "int_minimal vc" and
    s2: "dec_imprint c1 = Some (m, c2)" and
    s3: "dec_opt_oid c2 = Some (pol, c3)" and
    s4: "dec_opt_int c3 = Some (n, c4)" and
    s5: "dec_bool_default c4 = Some (cr, c5)" and
    s6: "dec_exts 0xA0 c5 = Some (es, [])" and
    r: "r = \<lparr>req_version = dec_int vc, messageImprint = m, reqPolicy = pol, nonce = n,
             certReq = cr, extensions = es\<rparr>"
    by (auto simp: dec_req_def bind_eq_Some_conv split: if_splits)
  note e2 = dec_imprint_Some [OF s2] and e3 = dec_opt_oid_Some [OF s3] and e6 = dec_exts_Some [OF s6]
  have "c = req_body r"
    using expect_tlv_Some [OF s1] e2 e3 dec_opt_int_Some [OF s4] dec_bool_default_Some [OF s5] e6
      enc_int_dec_int [OF mi] r
    by (simp add: req_body_def)
  then show ?thesis
    using expect_tlv_Some [OF s0] e2 e3 e6 r by (simp add: enc_req_def wf_req_def)
qed

text \<open>The first example request, encoded and decoded.\<close>

lemma ex_req_roundtrip: "dec_req (enc_req ex_req) = Some ex_req"
  by (rule tsp_request_roundtrip [OF ex_req_wf ex_req_len])

lemma ex_req_decodes:
  "dec_req ([0x30, 0x3D, 0x02, 0x01, 0x01, 0x30, 0x31, 0x30, 0x0D, 0x06, 0x09,
   0x60, 0x86, 0x48, 0x01, 0x65, 0x03, 0x04, 0x02, 0x01, 0x05, 0x00, 0x04, 0x20] @ replicate 32 0 @
   [0x02, 0x02, 0x01, 0x2C, 0x01, 0x01, 0xFF]) = Some ex_req"
  by (simp add: dec_req_def expect_tlv_def der_tlv_def decode_len_def dec_imprint_def dec_alg_def
      dec_opt_oid_def dec_opt_int_def dec_bool_default_def dec_exts_def opt_tlv_def valid_oid_def
      ex_req_def oid_sha256_def)

end
