(* ===== verification/Gen_Time.thy ===== *)
theory Gen_Time
  imports Der
begin

text \<open>
  The GeneralizedTime encoding of a token's time (spec section 4.1: \<open>genTime\<close> is
  encoded as \<open>YYYYMMDDhhmmssZ\<close>, UTC, no fractional seconds, no local offset). A time is a
  count of seconds since 1970-01-01T00:00:00Z; the proleptic Gregorian calendar turns its
  day count into a civil date by walking over years and months (\<open>split_years\<close>,
  \<open>split_months\<close>), and \<open>days_of_civil\<close> is the inverse. Each field is written as fixed-width
  decimal digits. The decoder accepts exactly the fifteen octets the encoder writes: digits
  only, the \<open>Z\<close> suffix, a valid date and a time of day below 24:00:00. The lemmas show the
  calendar is a bijection between day counts and valid dates from 1970 on, and that
  encoding and decoding are inverse for every time before year 10000 (the four-digit year
  field), in both directions.
\<close>

section \<open>Calendar\<close>

definition leap :: "nat \<Rightarrow> bool" where
  "leap y \<longleftrightarrow> (4 dvd y \<and> \<not> 100 dvd y) \<or> 400 dvd y"

definition year_days :: "nat \<Rightarrow> nat" where
  "year_days y = (if leap y then 366 else 365)"

definition month_days :: "nat \<Rightarrow> nat \<Rightarrow> nat" where
  "month_days y m = [31, if leap y then 29 else 28, 31, 30, 31, 30, 31, 31, 30, 31, 30, 31] ! (m - 1)"

function split_years :: "nat \<Rightarrow> nat \<Rightarrow> nat \<times> nat" where
  "split_years y d = (if d < year_days y then (y, d) else split_years (Suc y) (d - year_days y))"
  by auto
termination
  by (relation "measure snd") (auto simp: year_days_def)

function split_months :: "nat \<Rightarrow> nat \<Rightarrow> nat \<Rightarrow> nat \<times> nat" where
  "split_months y m d =
     (if m < 12 \<and> month_days y m \<le> d then split_months y (Suc m) (d - month_days y m) else (m, d))"
  by auto
termination
  by (relation "measure (\<lambda>(y, m, d). 12 - m)") auto

definition civil_of_days :: "nat \<Rightarrow> nat \<times> nat \<times> nat" where
  "civil_of_days n =
     (case split_years 1970 n of
        (y, dy) \<Rightarrow> (case split_months y 1 dy of (m, dm) \<Rightarrow> (y, m, Suc dm)))"

definition days_of_civil :: "nat \<Rightarrow> nat \<Rightarrow> nat \<Rightarrow> nat" where
  "days_of_civil y m d = sum_list (map year_days [1970..<y]) + sum_list (map (month_days y) [1..<m]) + (d - 1)"

definition valid_civil :: "nat \<Rightarrow> nat \<Rightarrow> nat \<Rightarrow> bool" where
  "valid_civil y m d \<longleftrightarrow> 1970 \<le> y \<and> 1 \<le> m \<and> m \<le> 12 \<and> 1 \<le> d \<and> d \<le> month_days y m"

section \<open>Fixed-width decimal digits\<close>

definition digit_byte :: "nat \<Rightarrow> byte" where
  "digit_byte d = of_nat (48 + d)"

fun dec_digits :: "nat \<Rightarrow> nat \<Rightarrow> byte list" where
  "dec_digits 0 n = []"
| "dec_digits (Suc k) n = dec_digits k (n div 10) @ [digit_byte (n mod 10)]"

definition is_digit :: "byte \<Rightarrow> bool" where
  "is_digit b \<longleftrightarrow> 0x30 \<le> b \<and> b \<le> 0x39"

definition digits_val :: "byte list \<Rightarrow> nat" where
  "digits_val bs = foldl (\<lambda>acc b. acc * 10 + (unat b - 48)) 0 bs"

section \<open>GeneralizedTime\<close>

definition enc_gentime :: "time \<Rightarrow> byte list" where
  "enc_gentime t =
     (case civil_of_days (t div 86400) of
        (y, mo, d) \<Rightarrow>
          dec_digits 4 y @ dec_digits 2 mo @ dec_digits 2 d @ dec_digits 2 (t mod 86400 div 3600)
          @ dec_digits 2 (t mod 3600 div 60) @ dec_digits 2 (t mod 60) @ [0x5A])"

definition dec_gentime :: "byte list \<Rightarrow> time option" where
  "dec_gentime bs =
     (if length bs = 15 \<and> list_all is_digit (take 14 bs) \<and> bs ! 14 = 0x5A then
        (let y = digits_val (take 4 bs); mo = digits_val (take 2 (drop 4 bs));
             d = digits_val (take 2 (drop 6 bs)); hh = digits_val (take 2 (drop 8 bs));
             mi = digits_val (take 2 (drop 10 bs)); ss = digits_val (take 2 (drop 12 bs)) in
         if valid_civil y mo d \<and> hh < 24 \<and> mi < 60 \<and> ss < 60
         then Some (days_of_civil y mo d * 86400 + hh * 3600 + mi * 60 + ss) else None)
      else None)"

definition gentime_limit :: time where
  "gentime_limit = days_of_civil 10000 1 1 * 86400"

section \<open>The calendar is a bijection\<close>

declare split_years.simps [simp del] split_months.simps [simp del]

lemma split_years_sum:
  "split_years y d = (y', d') \<Longrightarrow> y \<le> y' \<and> d = sum_list (map year_days [y..<y']) + d' \<and> d' < year_days y'"
proof (induction y d rule: split_years.induct)
  case (1 y d)
  show ?case
  proof (cases "d < year_days y")
    case True
    with "1.prems" show ?thesis by (simp add: split_years.simps)
  next
    case False
    with "1.prems" have "split_years (Suc y) (d - year_days y) = (y', d')"
      by (simp add: split_years.simps)
    from "1.IH" [OF False this] False show ?thesis
      by (auto simp: upt_conv_Cons)
  qed
qed

lemma split_years_sum_inv:
  "r < year_days y' \<Longrightarrow> y \<le> y' \<Longrightarrow> split_years y (sum_list (map year_days [y..<y']) + r) = (y', r)"
proof (induction "y' - y" arbitrary: y)
  case 0
  then show ?case by (simp add: split_years.simps)
next
  case (Suc k)
  then have y: "y < y'" by simp
  then have "[y..<y'] = y # [Suc y..<y']" by (simp add: upt_conv_Cons)
  moreover have "split_years (Suc y) (sum_list (map year_days [Suc y..<y']) + r) = (y', r)"
    using Suc by simp
  ultimately show ?case
    by (subst split_years.simps) simp
qed

lemma split_months_sum:
  "split_months y m d = (m', d') \<Longrightarrow> m \<le> 12 \<Longrightarrow>
     m \<le> m' \<and> m' \<le> 12 \<and> d = sum_list (map (month_days y) [m..<m']) + d'
     \<and> (m' < 12 \<longrightarrow> d' < month_days y m')"
proof (induction y m d rule: split_months.induct)
  case (1 y m d)
  show ?case
  proof (cases "m < 12 \<and> month_days y m \<le> d")
    case True
    with "1.prems" have "split_months y (Suc m) (d - month_days y m) = (m', d')"
      by (simp add: split_months.simps)
    from "1.IH" [OF True this] True show ?thesis
      by (auto simp: upt_conv_Cons)
  next
    case False
    with "1.prems" show ?thesis by (auto simp: split_months.simps)
  qed
qed

lemma split_months_sum_inv:
  "m \<le> m' \<Longrightarrow> m' \<le> 12 \<Longrightarrow> (m' < 12 \<longrightarrow> r < month_days y m') \<Longrightarrow>
     split_months y m (sum_list (map (month_days y) [m..<m']) + r) = (m', r)"
proof (induction "m' - m" arbitrary: m)
  case 0
  then show ?case by (subst split_months.simps) auto
next
  case (Suc k)
  then have m: "m < m'" by simp
  then have "[m..<m'] = m # [Suc m..<m']" by (simp add: upt_conv_Cons)
  moreover have "split_months y (Suc m) (sum_list (map (month_days y) [Suc m..<m']) + r) = (m', r)"
    using Suc by simp
  ultimately show ?case
    using m Suc.prems by (subst split_months.simps) simp
qed

lemma months_year_days: "sum_list (map (month_days y) [1..<13]) = year_days y"
  by (simp add: month_days_def year_days_def upt_rec)

lemma months_year_days_split:
  "sum_list (map (month_days y) [1..<12]) + month_days y 12 = year_days y"
  by (simp add: month_days_def year_days_def upt_rec)

lemma months_prefix_le:
  assumes "1 \<le> m" "m \<le> 12"
  shows "sum_list (map (month_days y) [1..<m]) + month_days y m \<le> year_days y"
proof -
  have "[1..<13] = [1..<m] @ [m..<13]"
    using upt_add_eq_append [of 1 m "13 - m"] assms by simp
  also have "[m..<13] = m # [Suc m..<13]"
    using assms by (simp add: upt_conv_Cons)
  finally have "[1..<13] = [1..<m] @ [m] @ [Suc m..<13]" by simp
  then show ?thesis
    using months_year_days [of y] by simp
qed

lemma days_of_civil_of_days: "case civil_of_days n of (y, m, d) \<Rightarrow> days_of_civil y m d = n"
proof -
  obtain y dy where sy: "split_years 1970 n = (y, dy)" by fastforce
  obtain m dm where sm: "split_months y 1 dy = (m, dm)" by fastforce
  have "n = sum_list (map year_days [1970..<y]) + dy" using split_years_sum [OF sy] by simp
  moreover have "dy = sum_list (map (month_days y) [1..<m]) + dm" using split_months_sum [OF sm] by simp
  ultimately show ?thesis using sy sm by (simp add: civil_of_days_def days_of_civil_def)
qed

lemma civil_of_days_valid: "case civil_of_days n of (y, m, d) \<Rightarrow> valid_civil y m d"
proof -
  obtain y dy where sy: "split_years 1970 n = (y, dy)" by fastforce
  obtain m dm where sm: "split_months y 1 dy = (m, dm)" by fastforce
  have ys: "1970 \<le> y" "dy < year_days y" using split_years_sum [OF sy] by simp_all
  have ms: "1 \<le> m" "m \<le> 12" "dy = sum_list (map (month_days y) [1..<m]) + dm"
    "m < 12 \<longrightarrow> dm < month_days y m"
    using split_months_sum [OF sm] by simp_all
  have "dm < month_days y m"
  proof (cases "m < 12")
    case True
    with ms show ?thesis by simp
  next
    case False
    with ms have "m = 12" by simp
    with ms ys months_year_days_split [of y] show ?thesis by simp
  qed
  with ys ms sy sm show ?thesis by (simp add: civil_of_days_def valid_civil_def)
qed

lemma civil_of_days_of_civil:
  assumes "valid_civil y m d"
  shows "civil_of_days (days_of_civil y m d) = (y, m, d)"
proof -
  let ?r = "sum_list (map (month_days y) [1..<m]) + (d - 1)"
  have v: "1970 \<le> y" "1 \<le> m" "m \<le> 12" "1 \<le> d" "d \<le> month_days y m"
    using assms by (simp_all add: valid_civil_def)
  have "?r < year_days y" using months_prefix_le [OF v(2,3), of y] v(4,5) by simp
  then have "split_years 1970 (days_of_civil y m d) = (y, ?r)"
    using split_years_sum_inv [of ?r y 1970] v(1) by (simp add: days_of_civil_def add.assoc)
  moreover have "split_months y 1 ?r = (m, d - 1)"
    by (rule split_months_sum_inv) (use v in auto)
  ultimately show ?thesis using v(4) by (simp add: civil_of_days_def)
qed

section \<open>Digits\<close>

lemma digits_val_snoc [simp]: "digits_val (xs @ [b]) = digits_val xs * 10 + (unat b - 48)"
  by (simp add: digits_val_def)

lemma digits_val_Nil [simp]: "digits_val [] = 0"
  by (simp add: digits_val_def)

lemma length_dec_digits [simp]: "length (dec_digits k n) = k"
  by (induction k arbitrary: n) simp_all

lemma unat_digit_byte: "d < 10 \<Longrightarrow> unat (digit_byte d) = 48 + d"
  by (simp only: digit_byte_def unat_of_nat) simp

lemma is_digit_unat: "is_digit b \<longleftrightarrow> 48 \<le> unat b \<and> unat b \<le> 57"
  by (simp add: is_digit_def word_le_nat_alt)

lemma digits_val_dec_digits: "n < 10 ^ k \<Longrightarrow> digits_val (dec_digits k n) = n"
proof (induction k arbitrary: n)
  case 0
  then show ?case by simp
next
  case (Suc k)
  have "n div 10 < 10 ^ k" using Suc.prems by (simp add: div_less_iff_less_mult mult.commute)
  with Suc.IH show ?case by (simp add: unat_digit_byte)
qed

lemma dec_digits_is_digit: "list_all is_digit (dec_digits k n)"
  by (induction k arbitrary: n) (simp_all add: is_digit_unat unat_digit_byte)

lemma digits_val_less: "list_all is_digit bs \<Longrightarrow> digits_val bs < 10 ^ length bs"
proof (induction bs rule: rev_induct)
  case Nil
  then show ?case by simp
next
  case (snoc b bs)
  then have "is_digit b" and bs: "list_all is_digit bs" by simp_all
  then have "48 \<le> unat b \<and> unat b \<le> 57" by (simp add: is_digit_unat)
  then have "unat b - 48 < 10" by linarith
  moreover have "digits_val bs < 10 ^ length bs" using snoc.IH [OF bs] .
  ultimately have "digits_val bs * 10 + (unat b - 48) < (digits_val bs + 1) * 10"
    and "(digits_val bs + 1) * 10 \<le> 10 ^ length bs * 10" by simp_all
  then show ?case by simp
qed

lemma dec_digits_digits_val: "list_all is_digit bs \<Longrightarrow> dec_digits (length bs) (digits_val bs) = bs"
proof (induction bs rule: rev_induct)
  case Nil
  then show ?case by simp
next
  case (snoc b bs)
  then have "is_digit b" and bs: "list_all is_digit bs" by simp_all
  then have b: "48 \<le> unat b" "unat b \<le> 57" by (simp_all add: is_digit_unat)
  obtain d where d: "unat b - 48 = d" "d < 10" using b by auto
  have "(digits_val bs * 10 + d) div 10 = digits_val bs" and "(digits_val bs * 10 + d) mod 10 = d"
    using d(2) by simp_all
  moreover have e: "48 + d = unat b" using b d(1) by linarith
  moreover have "digit_byte d = b" unfolding digit_byte_def e by simp
  ultimately show ?case using snoc.IH [OF bs] d(1) by simp
qed

section \<open>GeneralizedTime round trip and canonical form\<close>

lemma time_split: "t div 86400 * 86400 + t mod 86400 div 3600 * 3600 + t mod 3600 div 60 * 60 + t mod 60 = (t :: nat)"
proof -
  have a: "t mod 86400 = t mod 86400 div 3600 * 3600 + t mod 3600"
    using div_mult_mod_eq [of "t mod 86400" 3600] mod_mod_cancel [of 3600 86400 t] by simp
  have b: "t mod 3600 = t mod 3600 div 60 * 60 + t mod 60"
    using div_mult_mod_eq [of "t mod 3600" 60] mod_mod_cancel [of 60 3600 t] by simp
  show ?thesis using div_mult_mod_eq [of t 86400] a b by linarith
qed

lemma year_days_ge: "365 * length ys \<le> sum_list (map year_days ys)"
  by (induction ys) (auto simp: year_days_def)

lemma gentime_limit_ge: "86400 * 365 * 8030 \<le> gentime_limit"
proof -
  have "365 * length [1970..<10000] \<le> sum_list (map year_days [1970..<10000])"
    by (rule year_days_ge)
  moreover have "length [1970..<10000] = 8030" by (simp del: upt_rec_numeral)
  ultimately show ?thesis by (simp add: gentime_limit_def days_of_civil_def del: upt_rec_numeral)
qed

lemma civil_year_bound:
  assumes "t < gentime_limit" "civil_of_days (t div 86400) = (y, mo, d)"
  shows "y < 10000"
proof (rule ccontr)
  assume "\<not> y < 10000"
  then have "[1970..<y] = [1970..<10000] @ [10000..<y]"
    using upt_add_eq_append [of 1970 10000 "y - 10000"] by (simp del: upt_rec_numeral)
  then have "sum_list (map year_days [1970..<10000]) \<le> days_of_civil y mo d"
    by (simp add: days_of_civil_def del: upt_rec_numeral)
  also have "days_of_civil y mo d = t div 86400"
    using days_of_civil_of_days [of "t div 86400"] assms(2) by simp
  finally have "days_of_civil 10000 1 1 \<le> t div 86400"
    by (simp add: days_of_civil_def del: upt_rec_numeral)
  then have "gentime_limit \<le> t" unfolding gentime_limit_def
    using div_mult_mod_eq [of t 86400] by linarith
  with assms(1) show False by simp
qed

lemma month_days_le:
  assumes "1 \<le> m" "m \<le> 12"
  shows "month_days y m \<le> 31"
proof -
  have "m - 1 < length [31, if leap y then 29 else 28, 31, 30, 31, 30, 31, 31, 30, 31, 30, 31::nat]"
    using assms by simp
  then have "month_days y m \<in> set [31, if leap y then 29 else 28, 31, 30, 31, 30, 31, 31, 30, 31, 30, 31]"
    unfolding month_days_def by (rule nth_mem)
  then show ?thesis by auto
qed

lemma enc_gentime_parts:
  assumes "civil_of_days (t div 86400) = (y, mo, d)"
  shows "enc_gentime t = dec_digits 4 y @ dec_digits 2 mo @ dec_digits 2 d @ dec_digits 2 (t mod 86400 div 3600)
          @ dec_digits 2 (t mod 3600 div 60) @ dec_digits 2 (t mod 60) @ [0x5A]"
  using assms by (simp add: enc_gentime_def)

lemma dec_enc_gentime:
  assumes "t < gentime_limit"
  shows "dec_gentime (enc_gentime t) = Some t"
proof -
  obtain y mo d where c: "civil_of_days (t div 86400) = (y, mo, d)" by (metis prod_cases3)
  have v: "valid_civil y mo d" using civil_of_days_valid [of "t div 86400"] c by simp
  have y: "y < 10000" by (rule civil_year_bound [OF assms c])
  have mo: "mo < 100" and dd: "d < 100" using v month_days_le [of mo y] by (auto simp: valid_civil_def)
  have days: "days_of_civil y mo d = t div 86400" using days_of_civil_of_days [of "t div 86400"] c by simp
  have h: "t mod 86400 div 3600 < 24" by (simp add: less_mult_imp_div_less)
  have mi: "t mod 3600 div 60 < 60" by (simp add: less_mult_imp_div_less)
  have s: "t mod 60 < 60" by simp
  let ?E = "enc_gentime t"
  have e: "?E = dec_digits 4 y @ dec_digits 2 mo @ dec_digits 2 d @ dec_digits 2 (t mod 86400 div 3600)
          @ dec_digits 2 (t mod 3600 div 60) @ dec_digits 2 (t mod 60) @ [0x5A]"
    by (rule enc_gentime_parts [OF c])
  have dv: "digits_val (dec_digits 4 y) = y" "digits_val (dec_digits 2 mo) = mo"
    "digits_val (dec_digits 2 d) = d" "digits_val (dec_digits 2 (t mod 86400 div 3600)) = t mod 86400 div 3600"
    "digits_val (dec_digits 2 (t mod 3600 div 60)) = t mod 3600 div 60"
    "digits_val (dec_digits 2 (t mod 60)) = t mod 60"
    using y mo dd h mi s by (simp_all add: digits_val_dec_digits)
  have "dec_gentime ?E = Some (days_of_civil y mo d * 86400 + t mod 86400 div 3600 * 3600
                                + t mod 3600 div 60 * 60 + t mod 60)"
    unfolding e dec_gentime_def using v h mi s dv
    by (simp add: dec_digits_is_digit nth_append)
  then show ?thesis using days time_split [of t] by simp
qed

lemma mod_base: "r < n \<Longrightarrow> (q * n + r) mod n = (r :: nat)"
  by simp

lemma time_parts:
  fixes t :: nat
  assumes "hh < 24" "mi < 60" "ss < 60" "t = D * 86400 + hh * 3600 + mi * 60 + ss"
  shows "t div 86400 = D \<and> t mod 86400 div 3600 = hh \<and> t mod 3600 div 60 = mi \<and> t mod 60 = ss"
proof -
  have s: "hh * 3600 + mi * 60 + ss < 86400" using assms(1-3) by linarith
  have t: "t = D * 86400 + (hh * 3600 + mi * 60 + ss)" using assms(4) by simp
  have a: "t div 86400 = D" "t mod 86400 = hh * 3600 + mi * 60 + ss"
    using s unfolding t by simp_all
  have "mi * 60 + ss < 3600" using assms(2,3) by linarith
  then have b: "(hh * 3600 + mi * 60 + ss) div 3600 = hh" by simp
  have "t = (D * 24 + hh) * 3600 + (mi * 60 + ss)" using assms(4) by simp
  then have "t mod 3600 = ((D * 24 + hh) * 3600 + (mi * 60 + ss)) mod 3600" by (simp only:)
  also have "\<dots> = mi * 60 + ss" using \<open>mi * 60 + ss < 3600\<close> by (rule mod_base)
  finally have c: "t mod 3600 = mi * 60 + ss" .
  have d: "(mi * 60 + ss) div 60 = mi" "t mod 60 = ss"
    using assms(3,4) by (simp_all add: mod_add_left_eq [symmetric])
  show ?thesis using a b c d by simp
qed

lemma list_all_take_drop: "list_all P xs \<Longrightarrow> list_all P (take n (drop m xs))"
  by (meson in_set_dropD in_set_takeD list_all_iff)

lemma split15:
  assumes "length bs = 15"
  shows "take 4 bs @ take 2 (drop 4 bs) @ take 2 (drop 6 bs) @ take 2 (drop 8 bs)
         @ take 2 (drop 10 bs) @ take 2 (drop 12 bs) @ [bs ! 14] = bs"
proof -
  have t6: "take 6 bs = take 4 bs @ take 2 (drop 4 bs)" using take_add [of 4 2 bs] by simp
  have t8: "take 8 bs = take 6 bs @ take 2 (drop 6 bs)" using take_add [of 6 2 bs] by simp
  have t10: "take 10 bs = take 8 bs @ take 2 (drop 8 bs)" using take_add [of 8 2 bs] by simp
  have t12: "take 12 bs = take 10 bs @ take 2 (drop 10 bs)" using take_add [of 10 2 bs] by simp
  have t14: "take 14 bs = take 12 bs @ take 2 (drop 12 bs)" using take_add [of 12 2 bs] by simp
  have "bs = take 14 bs @ [bs ! 14]" using assms take_Suc_conv_app_nth [of 14 bs] by simp
  then show ?thesis unfolding t14 t12 t10 t8 t6 by simp
qed

lemma dec_gentime_Some:
  assumes "dec_gentime bs = Some t"
  shows "enc_gentime t = bs"
proof -
  let ?y = "digits_val (take 4 bs)" and ?mo = "digits_val (take 2 (drop 4 bs))"
  and ?d = "digits_val (take 2 (drop 6 bs))" and ?hh = "digits_val (take 2 (drop 8 bs))"
  and ?mi = "digits_val (take 2 (drop 10 bs))" and ?ss = "digits_val (take 2 (drop 12 bs))"
  have f: "length bs = 15" "list_all is_digit (take 14 bs)" "bs ! 14 = 0x5A"
    "valid_civil ?y ?mo ?d" "?hh < 24" "?mi < 60" "?ss < 60"
    "t = days_of_civil ?y ?mo ?d * 86400 + ?hh * 3600 + ?mi * 60 + ?ss"
    using assms by (auto simp: dec_gentime_def Let_def split: if_splits)
  note p = time_parts [OF f(5,6,7,8)]
  have c: "civil_of_days (t div 86400) = (?y, ?mo, ?d)"
    using p civil_of_days_of_civil [OF f(4)] by simp
  have dig: "list_all is_digit (take n (drop m bs))" if "m + n \<le> 14" for n m
  proof -
    have "take n (drop m bs) = take n (drop m (take 14 bs))" using that by (simp add: drop_take min_def)
    then show ?thesis using list_all_take_drop [OF f(2), of n m] by simp
  qed
  have r: "dec_digits 4 ?y = take 4 bs" "dec_digits 2 ?mo = take 2 (drop 4 bs)"
    "dec_digits 2 ?d = take 2 (drop 6 bs)" "dec_digits 2 ?hh = take 2 (drop 8 bs)"
    "dec_digits 2 ?mi = take 2 (drop 10 bs)" "dec_digits 2 ?ss = take 2 (drop 12 bs)"
    using dec_digits_digits_val [OF dig [of 0 4]] dec_digits_digits_val [OF dig [of 4 2]]
      dec_digits_digits_val [OF dig [of 6 2]] dec_digits_digits_val [OF dig [of 8 2]]
      dec_digits_digits_val [OF dig [of 10 2]] dec_digits_digits_val [OF dig [of 12 2]] f(1)
    by simp_all
  show ?thesis
    using enc_gentime_parts [OF c] p r split15 [OF f(1)] f(3) by simp
qed

lemma days_of_civil_lt:
  assumes "valid_civil y m d" "y < 10000"
  shows "days_of_civil y m d < days_of_civil 10000 1 1"
proof -
  have v: "1970 \<le> y" "1 \<le> m" "m \<le> 12" "1 \<le> d" "d \<le> month_days y m"
    using assms(1) by (simp_all add: valid_civil_def)
  have "sum_list (map (month_days y) [1..<m]) + (d - 1) < year_days y"
    using months_prefix_le [OF v(2,3), of y] v(4,5) by simp
  then have "days_of_civil y m d < sum_list (map year_days [1970..<Suc y])"
    using v(1) by (simp add: days_of_civil_def del: upt_rec_numeral)
  also have "\<dots> \<le> sum_list (map year_days [1970..<10000])"
    using upt_add_eq_append [of 1970 "Suc y" "10000 - Suc y"] v(1) assms(2)
    by (simp del: upt_rec_numeral)
  also have "\<dots> = days_of_civil 10000 1 1"
    by (simp add: days_of_civil_def del: upt_rec_numeral)
  finally show ?thesis .
qed

lemma dec_gentime_bound:
  assumes "dec_gentime bs = Some t"
  shows "t < gentime_limit"
proof -
  let ?y = "digits_val (take 4 bs)" and ?mo = "digits_val (take 2 (drop 4 bs))"
  and ?d = "digits_val (take 2 (drop 6 bs))" and ?hh = "digits_val (take 2 (drop 8 bs))"
  and ?mi = "digits_val (take 2 (drop 10 bs))" and ?ss = "digits_val (take 2 (drop 12 bs))"
  have f: "length bs = 15" "list_all is_digit (take 14 bs)"
    "valid_civil ?y ?mo ?d" "?hh < 24" "?mi < 60" "?ss < 60"
    "t = days_of_civil ?y ?mo ?d * 86400 + ?hh * 3600 + ?mi * 60 + ?ss"
    using assms by (auto simp: dec_gentime_def Let_def split: if_splits)
  have "list_all is_digit (take 4 bs)"
    using list_all_take_drop [OF f(2), of 4 0] by (simp add: min_def)
  then have "?y < 10000" using digits_val_less [of "take 4 bs"] f(1) by simp
  then have "days_of_civil ?y ?mo ?d + 1 \<le> days_of_civil 10000 1 1"
    using days_of_civil_lt [OF f(3)] by simp
  then have "(days_of_civil ?y ?mo ?d + 1) * 86400 \<le> gentime_limit"
    unfolding gentime_limit_def by (rule mult_right_mono) simp
  moreover have "?hh * 3600 + ?mi * 60 + ?ss < 86400" using f(4-6) by linarith
  ultimately show ?thesis using f(7) by simp
qed

section \<open>Test vectors\<close>

lemma dec_digits_numeral:
  "dec_digits (numeral k) n = dec_digits (pred_numeral k) (n div 10) @ [digit_byte (n mod 10)]"
  by (simp only: numeral_eq_Suc dec_digits.simps)

lemma ex_gentime:
  "enc_gentime 1700000000 = [0x32, 0x30, 0x32, 0x33, 0x31, 0x31, 0x31, 0x34, 0x32, 0x32, 0x31, 0x33, 0x32, 0x30, 0x5A]"
  by (simp add: enc_gentime_def civil_of_days_def split_years.simps split_months.simps year_days_def
      leap_def month_days_def digit_byte_def dec_digits_numeral)

lemma ex_gentime_dec:
  "dec_gentime [0x32, 0x30, 0x32, 0x33, 0x31, 0x31, 0x31, 0x34, 0x32, 0x32, 0x31, 0x33, 0x32, 0x30, 0x5A] = Some 1700000000"
  by (simp add: dec_gentime_def is_digit_def digits_val_def valid_civil_def days_of_civil_def year_days_def
      leap_def month_days_def upt_conv_Cons)

end
