(* ===== verification/Token_Codec.thy ===== *)
theory Token_Codec
  imports Tsp_Codec Gen_Time
begin

text \<open>
  The token codec of spec section 4.1: the canonical DER encoding of \<open>TSTInfo\<close>, the
  bytes the signer's signature covers, and its decoder, as a verifier runs it:
  \<^verbatim>\<open>SEQUENCE { version INTEGER, policy OID, messageImprint MessageImprint,
  serialNumber INTEGER, genTime GeneralizedTime, accuracy Accuracy OPTIONAL,
  ordering BOOLEAN DEFAULT FALSE, nonce INTEGER OPTIONAL, tsa [0] GeneralName OPTIONAL,
  extensions [1] IMPLICIT Extensions OPTIONAL }\<close> with
  \<^verbatim>\<open>Accuracy ::= SEQUENCE { seconds INTEGER OPTIONAL, millis [0] INTEGER (1..999)
  OPTIONAL, micros [1] INTEGER (1..999) OPTIONAL }\<close>.
  The accuracy of the model is a count of microseconds, split into the three fields, a
  zero field being absent; the serial number is the INTEGER of the 64-bit word; the
  authority's name is the content of the \<open>[0]\<close> element, kept as octets. Every field is
  read by one of two combinators, a mandatory element (\<open>dec_with\<close>) or an optional one
  (\<open>dec_opt_with\<close>), each given a value reader; each combinator has a round-trip and a
  canonical-form law, so the token's laws are the composition of the fields' laws.
\<close>

section \<open>Field combinators\<close>

definition dec_with :: "byte \<Rightarrow> (byte list \<Rightarrow> 'a option) \<Rightarrow> 'a der_parser" where
  "dec_with t f bs = do { (c, r) \<leftarrow> expect_tlv t bs; v \<leftarrow> f c; Some (v, r) }"

definition dec_opt_with :: "byte \<Rightarrow> (byte list \<Rightarrow> 'a option) \<Rightarrow> 'a option der_parser" where
  "dec_opt_with t f bs = do {
     (x, r) \<leftarrow> opt_tlv t bs;
     case x of None \<Rightarrow> Some (None, r) | Some c \<Rightarrow> do { v \<leftarrow> f c; Some (Some v, r) }
   }"

section \<open>Value readers\<close>

definition int_val :: "byte list \<Rightarrow> int option" where
  "int_val c = (if int_minimal c then Some (dec_int c) else None)"

definition oid_val :: "byte list \<Rightarrow> oid option" where
  "oid_val c = (if valid_oid c then Some c else None)"

definition enc_serial :: "serial \<Rightarrow> byte list" where
  "enc_serial s = enc_int (uint s)"

definition serial_val :: "byte list \<Rightarrow> serial option" where
  "serial_val c =
     (if int_minimal c \<and> 0 \<le> dec_int c \<and> dec_int c < 2 ^ 64 then Some (word_of_int (dec_int c))
      else None)"

section \<open>Accuracy\<close>

text \<open>A field of the accuracy is absent when it is zero, and a present field is positive.\<close>

definition nz :: "nat \<Rightarrow> nat option" where
  "nz n = (if n = 0 then None else Some n)"

definition opt0 :: "nat option \<Rightarrow> nat" where
  "opt0 x = (case x of None \<Rightarrow> 0 | Some n \<Rightarrow> n)"

definition enc_pos :: "nat \<Rightarrow> byte list" where
  "enc_pos n = enc_int (int n)"

definition pos_val :: "nat option \<Rightarrow> byte list \<Rightarrow> nat option" where
  "pos_val hi c =
     (if int_minimal c \<and> 0 < dec_int c \<and> pred_option (\<lambda>h. dec_int c \<le> int h) hi
      then Some (nat (dec_int c)) else None)"

definition acc_body :: "nat \<Rightarrow> byte list" where
  "acc_body a =
     opt_enc 0x02 (map_option enc_pos (nz (a div 1000000)))
     @ opt_enc 0x80 (map_option enc_pos (nz (a div 1000 mod 1000)))
     @ opt_enc 0x81 (map_option enc_pos (nz (a mod 1000)))"

definition dec_acc :: "byte list \<Rightarrow> nat option" where
  "dec_acc c = do {
     (s, c1) \<leftarrow> dec_opt_with 0x02 (pos_val None) c;
     (ms, c2) \<leftarrow> dec_opt_with 0x80 (pos_val (Some 999)) c1;
     (us, c3) \<leftarrow> dec_opt_with 0x81 (pos_val (Some 999)) c2;
     if c3 \<noteq> [] then None else Some (opt0 s * 1000000 + opt0 ms * 1000 + opt0 us)
   }"

section \<open>TSTInfo\<close>

definition tst_body :: "TSTInfo \<Rightarrow> byte list" where
  "tst_body tok =
     encode_tlv 0x02 (enc_int (tst_version tok)) @ encode_tlv 0x06 (policy tok)
     @ enc_imprint (tst_imprint tok) @ encode_tlv 0x02 (enc_serial (serialNumber tok))
     @ encode_tlv 0x18 (enc_gentime (genTime tok))
     @ opt_enc 0x30 (map_option acc_body (accuracy tok)) @ enc_bool_default (ordering tok)
     @ opt_enc 0x02 (map_option enc_int (tst_nonce tok)) @ opt_enc 0xA0 (tsaName tok)
     @ enc_exts 0xA1 (tst_extensions tok)"

definition enc_tst :: "TSTInfo \<Rightarrow> byte list" where
  "enc_tst tok = encode_tlv 0x30 (tst_body tok)"

definition dec_tst :: "byte list \<Rightarrow> TSTInfo option" where
  "dec_tst bs = do {
     (c, rest) \<leftarrow> expect_tlv 0x30 bs;
     if rest \<noteq> [] then None else do {
       (v, c1) \<leftarrow> dec_with 0x02 int_val c;
       (pol, c2) \<leftarrow> dec_with 0x06 oid_val c1;
       (m, c3) \<leftarrow> dec_imprint c2;
       (sn, c4) \<leftarrow> dec_with 0x02 serial_val c3;
       (t, c5) \<leftarrow> dec_with 0x18 dec_gentime c4;
       (acc, c6) \<leftarrow> dec_opt_with 0x30 dec_acc c5;
       (ord, c7) \<leftarrow> dec_bool_default c6;
       (n, c8) \<leftarrow> dec_opt_int c7;
       (tsa, c9) \<leftarrow> opt_tlv 0xA0 c8;
       (es, c10) \<leftarrow> dec_exts 0xA1 c9;
       if c10 \<noteq> [] then None
       else Some \<lparr>tst_version = v, policy = pol, tst_imprint = m, serialNumber = sn, genTime = t,
                  accuracy = acc, ordering = ord, tst_nonce = n, tsaName = tsa, tst_extensions = es\<rparr>
     }
   }"

definition wf_tst :: "TSTInfo \<Rightarrow> bool" where
  "wf_tst tok \<longleftrightarrow> valid_oid (policy tok) \<and> valid_oid (algorithm (hashAlgorithm (tst_imprint tok)))
     \<and> genTime tok < gentime_limit \<and> list_all (\<lambda>e. valid_oid (extnID e)) (tst_extensions tok)"

subsection \<open>A token for the example request\<close>

definition ex_tst :: TSTInfo where
  "ex_tst = \<lparr>tst_version = 1, policy = [0x2B, 0x06, 0x01, 0x04, 0x01, 0x01],
     tst_imprint = messageImprint ex_req, serialNumber = 42, genTime = 1700000000,
     accuracy = Some 1500, ordering = True, tst_nonce = Some 300, tsaName = None,
     tst_extensions = []\<rparr>"

section \<open>Laws of the combinators\<close>

lemma dec_with_enc:
  "f c = Some v \<Longrightarrow> length c < der_bound \<Longrightarrow> dec_with t f (encode_tlv t c @ r) = Some (v, r)"
  by (simp add: dec_with_def expect_tlv_encode)

lemma dec_with_Some:
  assumes "dec_with t f bs = Some (v, r)"
  obtains c where "f c = Some v" "bs = encode_tlv t c @ r"
  using assms by (auto simp: dec_with_def bind_eq_Some_conv dest: expect_tlv_Some)

lemma dec_with_inv:
  assumes "dec_with t f bs = Some (v, r)" and "\<And>c v. f c = Some v \<Longrightarrow> c = g v"
  shows "bs = encode_tlv t (g v) @ r"
  using assms(1) by (rule dec_with_Some) (metis assms(2))

lemma dec_opt_with_enc:
  assumes "\<And>v. y = Some v \<Longrightarrow> f (g v) = Some v"
    and "length (opt_enc t (map_option g y)) < der_bound" and "y = None \<Longrightarrow> r = [] \<or> hd r \<noteq> t"
  shows "dec_opt_with t f (opt_enc t (map_option g y) @ r) = Some (y, r)"
  using opt_tlv_opt_enc [of t "map_option g y" r] assms
  by (cases y) (simp_all add: dec_opt_with_def)

lemma dec_opt_with_Some:
  assumes "dec_opt_with t f bs = Some (y, r)" and "\<And>c v. f c = Some v \<Longrightarrow> c = g v"
  shows "bs = opt_enc t (map_option g y) @ r"
proof -
  obtain x r' where o: "opt_tlv t bs = Some (x, r')"
    and k: "(case x of None \<Rightarrow> Some (None, r') | Some c \<Rightarrow> do { v \<leftarrow> f c; Some (Some v, r') })
            = Some (y, r)"
    using assms(1) by (auto simp: dec_opt_with_def bind_eq_Some_conv)
  from opt_tlv_Some [OF o] k assms(2) show ?thesis
    by (cases x) (auto simp: bind_eq_Some_conv)
qed

lemma dec_opt_with_Some_val:
  assumes "dec_opt_with t f bs = Some (Some v, r)"
  shows "\<exists>c. f c = Some v"
  using assms by (auto simp: dec_opt_with_def bind_eq_Some_conv split: option.splits)

section \<open>Laws of the value readers\<close>

lemma int_val_enc [simp]: "int_val (enc_int i) = Some i"
  by (simp add: int_val_def int_minimal_enc_int)

lemma int_val_Some: "int_val c = Some i \<Longrightarrow> c = enc_int i"
  by (auto simp: int_val_def enc_int_dec_int split: if_splits)

lemma oid_val_Some: "oid_val c = Some p \<Longrightarrow> c = p \<and> valid_oid p"
  by (simp add: oid_val_def split: if_splits)

lemma serial_val_enc [simp]: "serial_val (enc_serial s) = Some s"
  using uint_lt2p [of s] by (simp add: serial_val_def enc_serial_def int_minimal_enc_int word_of_int_uint)

lemma serial_val_Some: "serial_val c = Some s \<Longrightarrow> c = enc_serial s"
  by (auto simp: serial_val_def enc_serial_def uint_word_of_int enc_int_dec_int split: if_splits)

lemma pos_val_enc:
  "0 < n \<Longrightarrow> pred_option (\<lambda>h. n \<le> h) hi \<Longrightarrow> pos_val hi (enc_pos n) = Some n"
  by (cases hi) (simp_all add: pos_val_def enc_pos_def int_minimal_enc_int)

lemma pos_val_Some:
  "pos_val hi c = Some n \<Longrightarrow> c = enc_pos n \<and> 0 < n \<and> pred_option (\<lambda>h. n \<le> h) hi"
  by (cases hi) (auto simp: pos_val_def enc_pos_def enc_int_dec_int split: if_splits)

section \<open>Laws of the accuracy\<close>

lemma opt0_nz [simp]: "opt0 (nz n) = n"
  by (simp add: opt0_def nz_def)

lemma nz_opt0: "x \<noteq> Some 0 \<Longrightarrow> nz (opt0 x) = x"
  by (cases x) (simp_all add: opt0_def nz_def)

lemma div_mod_base:
  fixes q u b :: nat
  assumes "u < b"
  shows "(q * b + u) div b = q" and "(q * b + u) mod b = u"
proof -
  have b: "b \<noteq> 0" using assms by simp
  have "(u + q * b) div b = q + u div b" by (rule div_mult_self1 [OF b])
  then show "(q * b + u) div b = q" using assms by (simp add: add.commute)
  have "(u + q * b) mod b = u mod b" by (rule mod_mult_self1)
  then show "(q * b + u) mod b = u" using assms by (simp add: add.commute)
qed

lemma div_1000000: "(a :: nat) div 1000000 = a div 1000 div 1000"
  using div_mult2_eq [of a 1000 1000] by simp

lemma acc_parts:
  fixes a :: nat
  assumes "m < 1000" "u < 1000" "a = s * 1000000 + m * 1000 + u"
  shows "a div 1000000 = s \<and> a div 1000 mod 1000 = m \<and> a mod 1000 = u"
proof -
  have a: "a = (s * 1000 + m) * 1000 + u" using assms(3) by simp
  have q: "a div 1000 = s * 1000 + m" unfolding a by (rule div_mod_base(1) [OF assms(2)])
  have "a mod 1000 = u" unfolding a by (rule div_mod_base(2) [OF assms(2)])
  moreover have "a div 1000 mod 1000 = m" unfolding q by (rule div_mod_base(2) [OF assms(1)])
  moreover have "a div 1000000 = s" unfolding div_1000000 q by (rule div_mod_base(1) [OF assms(1)])
  ultimately show ?thesis by simp
qed

lemma acc_split: "(a :: nat) div 1000000 * 1000000 + a div 1000 mod 1000 * 1000 + a mod 1000 = a"
proof -
  have g: "\<And>x y u. (x * 1000 + y) * 1000 + u = a \<Longrightarrow> x * 1000000 + y * 1000 + u = a"
    by simp
  have "(a div 1000 div 1000 * 1000 + a div 1000 mod 1000) * 1000 + a mod 1000 = a"
    by simp
  then show ?thesis unfolding div_1000000 by (rule g)
qed

lemma pos_val_nz:
  "pred_option (\<lambda>h. n \<le> h) hi \<Longrightarrow> nz n = Some v \<Longrightarrow> pos_val hi (enc_pos v) = Some v"
  by (rule pos_val_enc) (auto simp: nz_def split: if_splits)

lemma dec_acc_enc:
  assumes "length (acc_body a) < der_bound"
  shows "dec_acc (acc_body a) = Some a"
proof -
  let ?S = "nz (a div 1000000)" and ?M = "nz (a div 1000 mod 1000)" and ?U = "nz (a mod 1000)"
  let ?A3 = "opt_enc 0x81 (map_option enc_pos ?U)"
  let ?A2 = "opt_enc 0x80 (map_option enc_pos ?M) @ ?A3"
  have l: "length (opt_enc 0x02 (map_option enc_pos ?S)) < der_bound"
    "length (opt_enc 0x80 (map_option enc_pos ?M)) < der_bound" "length ?A3 < der_bound"
    using assms by (simp_all add: acc_body_def)
  have h3: "?A3 = [] \<or> hd ?A3 \<noteq> 0x80"
    using opt_enc_lead [of "[]" "{}" "0x81" "map_option enc_pos ?U"] by auto
  have h2: "?A2 = [] \<or> hd ?A2 \<in> {0x80, 0x81}"
    using opt_enc_lead [of "[]" "{}" "0x81"] opt_enc_lead [of ?A3 "{0x81}" "0x80"] by auto
  have "dec_opt_with 0x02 (pos_val None) (opt_enc 0x02 (map_option enc_pos ?S) @ ?A2) = Some (?S, ?A2)"
    using h2 l(1) by (intro dec_opt_with_enc pos_val_nz [where hi = None]) auto
  moreover have "dec_opt_with 0x80 (pos_val (Some 999)) ?A2 = Some (?M, ?A3)"
    using l(2) h3 by (intro dec_opt_with_enc pos_val_nz [where hi = "Some 999"]) auto
  moreover have "dec_opt_with 0x81 (pos_val (Some 999)) (?A3 @ []) = Some (?U, [])"
    using l(3) by (intro dec_opt_with_enc pos_val_nz [where hi = "Some 999"]) auto
  ultimately show ?thesis using acc_split [of a] by (simp add: dec_acc_def acc_body_def)
qed

lemma dec_acc_Some:
  assumes "dec_acc c = Some a"
  shows "c = acc_body a"
proof -
  from assms obtain s c1 ms c2 us where
    s1: "dec_opt_with 0x02 (pos_val None) c = Some (s, c1)" and
    s2: "dec_opt_with 0x80 (pos_val (Some 999)) c1 = Some (ms, c2)" and
    s3: "dec_opt_with 0x81 (pos_val (Some 999)) c2 = Some (us, [])" and
    a: "a = opt0 s * 1000000 + opt0 ms * 1000 + opt0 us"
    by (auto simp: dec_acc_def bind_eq_Some_conv split: if_splits)
  have v: "x \<noteq> Some 0 \<and> (hi = Some 999 \<longrightarrow> opt0 x < 1000)"
    if "dec_opt_with t (pos_val hi) d = Some (x, d')" for t hi d d' x
    using that by (cases x) (auto simp: opt0_def dest!: dec_opt_with_Some_val pos_val_Some)
  have p: "a div 1000000 = opt0 s" "a div 1000 mod 1000 = opt0 ms" "a mod 1000 = opt0 us"
    using acc_parts [OF conjunct2 [OF v [OF s2], rule_format] conjunct2 [OF v [OF s3], rule_format] a]
    by simp_all
  have e: "\<And>hi c v. pos_val hi c = Some v \<Longrightarrow> c = enc_pos v" by (simp add: pos_val_Some)
  show ?thesis
    using dec_opt_with_Some [OF s1 e] dec_opt_with_Some [OF s2 e] dec_opt_with_Some [OF s3 e]
      p nz_opt0 [OF conjunct1 [OF v [OF s1]]] nz_opt0 [OF conjunct1 [OF v [OF s2]]]
      nz_opt0 [OF conjunct1 [OF v [OF s3]]]
    by (simp add: acc_body_def)
qed

section \<open>Laws of the token codec\<close>

lemma dec_opt_acc_enc:
  assumes "length (opt_enc 0x30 (map_option acc_body acc)) < der_bound"
    and "acc = None \<Longrightarrow> r = [] \<or> hd r \<noteq> 0x30"
  shows "dec_opt_with 0x30 dec_acc (opt_enc 0x30 (map_option acc_body acc) @ r) = Some (acc, r)"
proof (rule dec_opt_with_enc [OF _ assms])
  fix v assume "acc = Some v"
  then have "length (acc_body v) < der_bound"
    using assms(1) by (simp add: length_encode_tlv)
  then show "dec_acc (acc_body v) = Some v" by (rule dec_acc_enc)
qed

lemma tst_roundtrip:
  assumes wf: "wf_tst tok" and len: "length (enc_tst tok) < der_bound"
  shows "dec_tst (enc_tst tok) = Some tok"
proof -
  let ?T9 = "enc_exts 0xA1 (tst_extensions tok)"
  let ?T8 = "opt_enc 0xA0 (tsaName tok) @ ?T9"
  let ?T7 = "opt_enc 0x02 (map_option enc_int (tst_nonce tok)) @ ?T8"
  let ?T6 = "enc_bool_default (ordering tok) @ ?T7"
  let ?T5 = "opt_enc 0x30 (map_option acc_body (accuracy tok)) @ ?T6"
  let ?T4 = "encode_tlv 0x18 (enc_gentime (genTime tok)) @ ?T5"
  let ?T3 = "encode_tlv 0x02 (enc_serial (serialNumber tok)) @ ?T4"
  let ?T2 = "enc_imprint (tst_imprint tok) @ ?T3"
  let ?T1 = "encode_tlv 0x06 (policy tok) @ ?T2"
  have body: "tst_body tok = encode_tlv 0x02 (enc_int (tst_version tok)) @ ?T1"
    by (simp add: tst_body_def)
  have b: "length (tst_body tok) < der_bound" using len by (simp add: enc_tst_def length_encode_tlv)
  then have l: "length (enc_int (tst_version tok)) < der_bound" "length (policy tok) < der_bound"
    "length (enc_imprint (tst_imprint tok)) < der_bound"
    "length (enc_serial (serialNumber tok)) < der_bound"
    "length (enc_gentime (genTime tok)) < der_bound"
    "length (opt_enc 0x30 (map_option acc_body (accuracy tok))) < der_bound"
    "length (opt_enc 0x02 (map_option enc_int (tst_nonce tok))) < der_bound"
    "length (opt_enc 0xA0 (tsaName tok)) < der_bound" "length ?T9 < der_bound"
    by (simp_all add: tst_body_def length_encode_tlv)
  have w: "valid_oid (policy tok)" "valid_oid (algorithm (hashAlgorithm (tst_imprint tok)))"
    "genTime tok < gentime_limit" "list_all (\<lambda>e. valid_oid (extnID e)) (tst_extensions tok)"
    using wf by (simp_all add: wf_tst_def)
  have h9: "?T9 = [] \<or> hd ?T9 \<in> {0xA1}" using enc_exts_lead by simp
  have h8: "?T8 = [] \<or> hd ?T8 \<in> {0xA0, 0xA1}" using opt_enc_lead [OF h9] by simp
  have h7: "?T7 = [] \<or> hd ?T7 \<in> {0x02, 0xA0, 0xA1}" using opt_enc_lead [OF h8] by simp
  have h6: "?T6 = [] \<or> hd ?T6 \<in> {0x01, 0x02, 0xA0, 0xA1}" using enc_bool_default_lead [OF h7] by simp
  have s0: "expect_tlv 0x30 (enc_tst tok) = Some (tst_body tok, [])"
    using expect_tlv_encode [OF b, of "0x30" "[]"] by (simp add: enc_tst_def)
  have s1: "dec_with 0x02 int_val (tst_body tok) = Some (tst_version tok, ?T1)"
    unfolding body by (rule dec_with_enc [where f = int_val, OF int_val_enc [of "tst_version tok"] l(1)])
  have s2: "dec_with 0x06 oid_val ?T1 = Some (policy tok, ?T2)"
    using w(1) l(2) by (intro dec_with_enc) (simp_all add: oid_val_def)
  have s3: "dec_imprint ?T2 = Some (tst_imprint tok, ?T3)"
    using w(2) l(3) by (rule dec_imprint_enc_imprint)
  have s4: "dec_with 0x02 serial_val ?T3 = Some (serialNumber tok, ?T4)"
    by (rule dec_with_enc [where f = serial_val, OF serial_val_enc [of "serialNumber tok"] l(4)])
  have s5: "dec_with 0x18 dec_gentime ?T4 = Some (genTime tok, ?T5)"
    by (rule dec_with_enc [where f = dec_gentime, OF dec_enc_gentime [OF w(3)] l(5)])
  have s6: "dec_opt_with 0x30 dec_acc ?T5 = Some (accuracy tok, ?T6)"
    using l(6) h6 by (intro dec_opt_acc_enc) auto
  have s7: "dec_bool_default ?T6 = Some (ordering tok, ?T7)"
    using h7 by (intro dec_bool_default_enc) auto
  have s8: "dec_opt_int ?T7 = Some (tst_nonce tok, ?T8)"
    using l(7) h8 by (intro dec_opt_int_enc) auto
  have s9: "opt_tlv 0xA0 ?T8 = Some (tsaName tok, ?T9)"
    using l(8) h9 by (intro opt_tlv_opt_enc) auto
  have s10: "dec_exts 0xA1 ?T9 = Some (tst_extensions tok, [])"
    using w(4) l(9) by (rule dec_exts_enc)
  show ?thesis
    using s0 s1 s2 s3 s4 s5 s6 s7 s8 s9 s10 by (simp add: dec_tst_def)
qed

lemma tst_canonical:
  assumes "dec_tst bs = Some tok"
  shows "wf_tst tok \<and> bs = enc_tst tok"
proof -
  from assms obtain c v c1 pol c2 m c3 sn c4 t c5 acc c6 ord c7 n c8 tsa c9 es where
    s0: "expect_tlv 0x30 bs = Some (c, [])" and
    s1: "dec_with 0x02 int_val c = Some (v, c1)" and
    s2: "dec_with 0x06 oid_val c1 = Some (pol, c2)" and
    s3: "dec_imprint c2 = Some (m, c3)" and
    s4: "dec_with 0x02 serial_val c3 = Some (sn, c4)" and
    s5: "dec_with 0x18 dec_gentime c4 = Some (t, c5)" and
    s6: "dec_opt_with 0x30 dec_acc c5 = Some (acc, c6)" and
    s7: "dec_bool_default c6 = Some (ord, c7)" and
    s8: "dec_opt_int c7 = Some (n, c8)" and
    s9: "opt_tlv 0xA0 c8 = Some (tsa, c9)" and
    s10: "dec_exts 0xA1 c9 = Some (es, [])" and
    tok: "tok = \<lparr>tst_version = v, policy = pol, tst_imprint = m, serialNumber = sn, genTime = t,
                 accuracy = acc, ordering = ord, tst_nonce = n, tsaName = tsa, tst_extensions = es\<rparr>"
    by (auto simp: dec_tst_def bind_eq_Some_conv split: if_splits)
  have e1: "c = encode_tlv 0x02 (enc_int v) @ c1"
    using s1 by (rule dec_with_Some) (auto dest: int_val_Some)
  obtain p' where "oid_val p' = Some pol" "c1 = encode_tlv 0x06 p' @ c2"
    using s2 by (rule dec_with_Some)
  then have e2: "c1 = encode_tlv 0x06 pol @ c2" and vp: "valid_oid pol"
    by (auto dest: oid_val_Some)
  obtain s' where "serial_val s' = Some sn" "c3 = encode_tlv 0x02 s' @ c4"
    using s4 by (rule dec_with_Some)
  then have e4: "c3 = encode_tlv 0x02 (enc_serial sn) @ c4" by (auto dest: serial_val_Some)
  obtain g' where g: "dec_gentime g' = Some t" and "c4 = encode_tlv 0x18 g' @ c5"
    using s5 by (rule dec_with_Some)
  then have e5: "c4 = encode_tlv 0x18 (enc_gentime t) @ c5" by (simp add: dec_gentime_Some)
  have e6: "c5 = opt_enc 0x30 (map_option acc_body acc) @ c6"
    using s6 by (rule dec_opt_with_Some) (rule dec_acc_Some)
  note e3 = dec_imprint_Some [OF s3] and e10 = dec_exts_Some [OF s10]
  have "c = tst_body tok"
    using e1 e2 e3 e4 e5 e6 dec_bool_default_Some [OF s7] dec_opt_int_Some [OF s8]
      opt_tlv_Some [OF s9] e10 tok
    by (simp add: tst_body_def)
  moreover have "wf_tst tok"
    using vp e3 dec_gentime_bound [OF g] e10 tok by (simp add: wf_tst_def)
  ultimately show ?thesis
    using expect_tlv_Some [OF s0] by (simp add: enc_tst_def)
qed

lemma ex_tst_bytes:
  "enc_tst ex_tst = [0x30, 0x62, 0x02, 0x01, 0x01, 0x06, 0x06, 0x2B, 0x06, 0x01, 0x04, 0x01, 0x01,
   0x30, 0x31, 0x30, 0x0D, 0x06, 0x09, 0x60, 0x86, 0x48, 0x01, 0x65, 0x03, 0x04, 0x02, 0x01, 0x05, 0x00,
   0x04, 0x20] @ replicate 32 0 @
   [0x02, 0x01, 0x2A, 0x18, 0x0F, 0x32, 0x30, 0x32, 0x33, 0x31, 0x31, 0x31, 0x34, 0x32, 0x32, 0x31,
   0x33, 0x32, 0x30, 0x5A, 0x30, 0x07, 0x80, 0x01, 0x01, 0x81, 0x02, 0x01, 0xF4, 0x01, 0x01, 0xFF,
   0x02, 0x02, 0x01, 0x2C]"
  by (simp add: ex_tst_def ex_req_def enc_tst_def tst_body_def ex_gentime enc_imprint_def enc_alg_def
      encode_tlv_def encode_len_def enc_bool_default_def enc_exts_def oid_sha256_def enc_int.simps
      enc_serial_def acc_body_def nz_def enc_pos_def)

lemma ex_tst_wf: "wf_tst ex_tst"
proof -
  have "(1700000000 :: nat) < 86400 * 365 * 8030" by simp
  then have "genTime ex_tst < gentime_limit" using gentime_limit_ge by (simp add: ex_tst_def)
  then show ?thesis by (simp add: wf_tst_def ex_tst_def ex_req_def valid_oid_def oid_sha256_def)
qed

lemma ex_tst_len: "length (enc_tst ex_tst) < der_bound"
  by (rule small_lt_der_bound) (simp add: ex_tst_bytes)

lemma ex_tst_roundtrip: "dec_tst (enc_tst ex_tst) = Some ex_tst"
  by (rule tst_roundtrip [OF ex_tst_wf ex_tst_len])

end
