(* ===== verification/Response_Codec.thy ===== *)
theory Response_Codec
  imports Token_Codec
begin

text \<open>
  The response half of the codec of spec section 4.1, \<open>encode(TimestampResponse) -> bytes\<close>,
  and the decoder a client runs on it:
  \<^verbatim>\<open>TimeStampResp ::= SEQUENCE { status PKIStatusInfo, timeStampToken ContentInfo OPTIONAL }
  PKIStatusInfo ::= SEQUENCE { status PKIStatus, failInfo PKIFailureInfo OPTIONAL }\<close>.
  \<open>PKIStatus\<close> is an INTEGER (granted 0 to revocationNotification 5); \<open>PKIFailureInfo\<close> is
  a BIT STRING of named bits (badAlg 0, badRequest 2, badDataFormat 5, timeNotAvailable 14,
  unacceptedPolicy 15, unacceptedExtension 16, addInfoNotAvailable 17, systemFailure 25),
  encoded under DER's rule for named bit lists: no trailing zero bit, so a single bit \<open>n\<close>
  takes \<open>n div 8 + 1\<close> octets and \<open>7 - n mod 8\<close> unused bits. The model has no free-text
  status string. The token is a CMS \<open>ContentInfo\<close> of type signedData whose
  \<open>SignedData\<close> is reduced to what the signer produces: the version, the encapsulated
  TSTInfo octets (the bytes the signature covers), the certificates, each one DER element,
  and the signature algorithm with the signature.
\<close>

unbundle bit_operations_syntax

section \<open>Status\<close>

primrec status_code :: "PKIStatus \<Rightarrow> int" where
  "status_code Granted = 0"
| "status_code GrantedWithMods = 1"
| "status_code Rejection = 2"
| "status_code Waiting = 3"
| "status_code RevocationWarning = 4"
| "status_code RevocationNotification = 5"

definition status_of_code :: "int \<Rightarrow> PKIStatus option" where
  "status_of_code i =
     map_of [(0, Granted), (1, GrantedWithMods), (2, Rejection), (3, Waiting),
             (4, RevocationWarning), (5, RevocationNotification)] i"

section \<open>Named bits\<close>

text \<open>The BIT STRING content of the named bit list with the single bit \<open>n\<close> set.\<close>

definition enc_bit :: "nat \<Rightarrow> byte list" where
  "enc_bit n = of_nat (7 - n mod 8) # replicate (n div 8) 0 @ [push_bit (7 - n mod 8) 1]"

definition dec_bit :: "byte list \<Rightarrow> nat option" where
  "dec_bit c =
     (case c of
        [] \<Rightarrow> None
      | u # bs \<Rightarrow>
          if bs \<noteq> [] \<and> unat u \<le> 7 \<and> butlast bs = replicate (length bs - 1) 0
             \<and> last bs = push_bit (unat u) 1
          then Some (8 * (length bs - 1) + (7 - unat u)) else None)"

primrec failure_bit :: "PKIFailureInfo \<Rightarrow> nat" where
  "failure_bit BadAlg = 0"
| "failure_bit BadRequest = 2"
| "failure_bit BadDataFormat = 5"
| "failure_bit TimeNotAvailable = 14"
| "failure_bit UnacceptedPolicy = 15"
| "failure_bit UnacceptedExtension = 16"
| "failure_bit AddInfoNotAvailable = 17"
| "failure_bit SystemFailure = 25"

definition failure_of_bit :: "nat \<Rightarrow> PKIFailureInfo option" where
  "failure_of_bit n =
     map_of [(0, BadAlg), (2, BadRequest), (5, BadDataFormat), (14, TimeNotAvailable),
             (15, UnacceptedPolicy), (16, UnacceptedExtension), (17, AddInfoNotAvailable),
             (25, SystemFailure)] n"

section \<open>PKIStatusInfo\<close>

definition enc_status_info :: "PKIStatus \<Rightarrow> PKIFailureInfo option \<Rightarrow> byte list" where
  "enc_status_info st fi =
     encode_tlv 0x30 (encode_tlv 0x02 (enc_int (status_code st))
       @ opt_enc 0x03 (map_option (enc_bit \<circ> failure_bit) fi))"

definition status_val :: "byte list \<Rightarrow> PKIStatus option" where
  "status_val c = do { i \<leftarrow> int_val c; status_of_code i }"

definition failure_val :: "byte list \<Rightarrow> PKIFailureInfo option" where
  "failure_val c = do { n \<leftarrow> dec_bit c; failure_of_bit n }"

definition dec_status_info :: "(PKIStatus \<times> PKIFailureInfo option) der_parser" where
  "dec_status_info bs = do {
     (c, rest) \<leftarrow> expect_tlv 0x30 bs;
     (st, c1) \<leftarrow> dec_with 0x02 status_val c;
     (fi, c2) \<leftarrow> dec_opt_with 0x03 failure_val c1;
     if c2 \<noteq> [] then None else Some ((st, fi), rest)
   }"

section \<open>Element readers\<close>

text \<open>The content is exactly one element with tag \<open>t\<close>, whose content \<open>f\<close> reads.\<close>

definition elem :: "byte \<Rightarrow> (byte list \<Rightarrow> 'a option) \<Rightarrow> byte list \<Rightarrow> 'a option" where
  "elem t f c = (case dec_with t f c of Some (v, []) \<Rightarrow> Some v | _ \<Rightarrow> None)"

definition const_val :: "byte list \<Rightarrow> byte list \<Rightarrow> unit option" where
  "const_val v c = (if c = v then Some () else None)"

definition is_tlv :: "byte list \<Rightarrow> bool" where
  "is_tlv c \<longleftrightarrow> (case der_tlv c of Some (_, _, r) \<Rightarrow> r = [] | None \<Rightarrow> False)"

function dec_tlv_list :: "byte list \<Rightarrow> byte list list option" where
  "dec_tlv_list bs =
     (if bs = [] then Some []
      else case der_tlv bs of
        None \<Rightarrow> None
      | Some (t, c, r) \<Rightarrow> map_option (Cons (encode_tlv t c)) (dec_tlv_list r))"
  by pat_completeness auto
termination
  by (relation "measure length") (auto dest!: der_tlv_Some simp: encode_tlv_def)

section \<open>The token: ContentInfo of SignedData\<close>

definition oid_signed_data :: oid where
  "oid_signed_data = [0x2A, 0x86, 0x48, 0x86, 0xF7, 0x0D, 0x01, 0x07, 0x02]"

definition oid_ct_tstinfo :: oid where
  "oid_ct_tstinfo = [0x2A, 0x86, 0x48, 0x86, 0xF7, 0x0D, 0x01, 0x09, 0x10, 0x01, 0x04]"

definition ne :: "'a list \<Rightarrow> 'a list option" where
  "ne xs = (if xs = [] then None else Some xs)"

definition enc_encap :: "byte list \<Rightarrow> byte list" where
  "enc_encap e = encode_tlv 0x06 oid_ct_tstinfo @ encode_tlv 0xA0 (encode_tlv 0x04 e)"

definition enc_signer :: "SignedEnvelope \<Rightarrow> byte list" where
  "enc_signer env = encode_tlv 0x06 (signatureAlgorithm env) @ encode_tlv 0x04 (signature env)"

definition sd_body :: "SignedEnvelope \<Rightarrow> byte list" where
  "sd_body env =
     encode_tlv 0x02 [0x03] @ encode_tlv 0x30 (enc_encap (encodedContent env))
     @ opt_enc 0xA0 (map_option concat (ne (certificates env)))
     @ encode_tlv 0x30 (enc_signer env)"

definition enc_env :: "SignedEnvelope \<Rightarrow> byte list" where
  "enc_env env =
     encode_tlv 0x30 (encode_tlv 0x06 oid_signed_data @ encode_tlv 0xA0 (encode_tlv 0x30 (sd_body env)))"

definition dec_encap :: "byte list \<Rightarrow> byte list option" where
  "dec_encap c = do {
     (_, c1) \<leftarrow> dec_with 0x06 (const_val oid_ct_tstinfo) c;
     (e, c2) \<leftarrow> dec_with 0xA0 (elem 0x04 Some) c1;
     if c2 \<noteq> [] then None else Some e
   }"

definition dec_signer :: "byte list \<Rightarrow> (oid \<times> byte list) option" where
  "dec_signer c = do {
     (alg, c1) \<leftarrow> dec_with 0x06 oid_val c;
     (sig, c2) \<leftarrow> dec_with 0x04 Some c1;
     if c2 \<noteq> [] then None else Some (alg, sig)
   }"

definition cert_list_val :: "byte list \<Rightarrow> byte list list option" where
  "cert_list_val c = (if c = [] then None else dec_tlv_list c)"

definition dec_sd :: "byte list \<Rightarrow> SignedEnvelope option" where
  "dec_sd c = do {
     (_, c1) \<leftarrow> dec_with 0x02 (const_val [0x03]) c;
     (e, c2) \<leftarrow> dec_with 0x30 dec_encap c1;
     (cs, c3) \<leftarrow> dec_opt_with 0xA0 cert_list_val c2;
     ((alg, sig), c4) \<leftarrow> dec_with 0x30 dec_signer c3;
     if c4 \<noteq> [] then None
     else do {
       tok \<leftarrow> dec_tst e;
       Some \<lparr>content = tok, encodedContent = e, signature = sig, signatureAlgorithm = alg,
             certificates = (case cs of None \<Rightarrow> [] | Some l \<Rightarrow> l)\<rparr>
     }
   }"

definition dec_env :: "SignedEnvelope der_parser" where
  "dec_env bs = do {
     (c, rest) \<leftarrow> expect_tlv 0x30 bs;
     (_, c1) \<leftarrow> dec_with 0x06 (const_val oid_signed_data) c;
     (env, c2) \<leftarrow> dec_with 0xA0 (elem 0x30 dec_sd) c1;
     if c2 \<noteq> [] then None else Some (env, rest)
   }"

text \<open>
  An envelope is well formed when its content is what its signed octets decode to, its
  signature algorithm is a valid OID and each certificate is one DER element.
\<close>

definition wf_env :: "SignedEnvelope \<Rightarrow> bool" where
  "wf_env env \<longleftrightarrow> dec_tst (encodedContent env) = Some (content env)
     \<and> valid_oid (signatureAlgorithm env) \<and> list_all is_tlv (certificates env)"

section \<open>TimeStampResp\<close>

definition enc_resp :: "TimeStampResp \<Rightarrow> byte list" where
  "enc_resp r =
     encode_tlv 0x30 (enc_status_info (status r) (failInfo r)
       @ (case timeStampToken r of None \<Rightarrow> [] | Some env \<Rightarrow> enc_env env))"

definition dec_resp :: "byte list \<Rightarrow> TimeStampResp option" where
  "dec_resp bs = do {
     (c, rest) \<leftarrow> expect_tlv 0x30 bs;
     if rest \<noteq> [] then None else do {
       ((st, fi), c1) \<leftarrow> dec_status_info c;
       tok \<leftarrow> (if c1 = [] then Some None
               else (case dec_env c1 of Some (env, []) \<Rightarrow> Some (Some env) | _ \<Rightarrow> None));
       Some \<lparr>status = st, failInfo = fi, timeStampToken = tok\<rparr>
     }
   }"

definition wf_resp :: "TimeStampResp \<Rightarrow> bool" where
  "wf_resp r \<longleftrightarrow> pred_option wf_env (timeStampToken r)"

section \<open>Laws of the status and the named bits\<close>

lemma status_of_code_status_code [simp]: "status_of_code (status_code s) = Some s"
  by (cases s) (simp_all add: status_of_code_def)

lemma status_of_code_Some: "status_of_code i = Some s \<Longrightarrow> i = status_code s"
  by (auto simp: status_of_code_def split: if_splits)

lemma failure_of_bit_failure_bit [simp]: "failure_of_bit (failure_bit f) = Some f"
  by (cases f) (simp_all add: failure_of_bit_def)

lemma failure_of_bit_Some: "failure_of_bit n = Some f \<Longrightarrow> n = failure_bit f"
  by (auto simp: failure_of_bit_def split: if_splits)

lemma unat_unused_bits: "unat (of_nat (7 - n mod 8) :: byte) = 7 - n mod 8"
  by (simp only: unat_of_nat) simp

lemma dec_bit_enc_bit [simp]: "dec_bit (enc_bit n) = Some n"
proof -
  define u where "u = (of_nat (7 - n mod 8) :: byte)"
  have u: "unat u = 7 - n mod 8" unfolding u_def by (rule unat_unused_bits)
  have "8 * (n div 8) + (7 - (7 - n mod 8)) = n" by simp
  then show ?thesis unfolding enc_bit_def u_def [symmetric]
    by (simp add: dec_bit_def u butlast_append)
qed

lemma dec_bit_Some:
  assumes "dec_bit c = Some n"
  shows "c = enc_bit n"
proof -
  obtain u bs where c: "c = u # bs" using assms by (cases c) (simp_all add: dec_bit_def)
  have f: "bs \<noteq> []" "unat u \<le> 7" "butlast bs = replicate (length bs - 1) 0"
    "last bs = push_bit (unat u) 1" "n = (length bs - 1) * 8 + (7 - unat u)"
    using assms unfolding c dec_bit_def by (simp_all split: if_splits)
  have l: "7 - unat u < 8" by simp
  have m: "n mod 8 = 7 - unat u" and d: "n div 8 = length bs - 1"
    unfolding f(5) by (rule div_mod_base(2) [OF l], rule div_mod_base(1) [OF l])
  have "bs = butlast bs @ [last bs]" using f(1) by simp
  then have "bs = replicate (n div 8) 0 @ [push_bit (7 - n mod 8) 1]"
    using f(2-4) d m by simp
  moreover have "7 - n mod 8 = unat u" using m f(2) by simp
  ultimately show ?thesis using c by (simp add: enc_bit_def)
qed

lemma status_val_enc [simp]: "status_val (enc_int (status_code s)) = Some s"
  by (simp add: status_val_def)

lemma status_val_Some: "status_val c = Some s \<Longrightarrow> c = enc_int (status_code s)"
  by (auto simp: status_val_def bind_eq_Some_conv dest: int_val_Some status_of_code_Some)

lemma failure_val_enc [simp]: "failure_val (enc_bit (failure_bit f)) = Some f"
  by (simp add: failure_val_def)

lemma failure_val_Some: "failure_val c = Some f \<Longrightarrow> c = enc_bit (failure_bit f)"
  by (auto simp: failure_val_def bind_eq_Some_conv dest: dec_bit_Some failure_of_bit_Some)

section \<open>Laws of the element readers\<close>

lemma elem_enc: "f c = Some v \<Longrightarrow> length c < der_bound \<Longrightarrow> elem t f (encode_tlv t c) = Some v"
  using dec_with_enc [of f c v t "[]"] by (simp add: elem_def)

lemma elem_Some:
  assumes "elem t f x = Some v"
  obtains c where "f c = Some v" "x = encode_tlv t c"
proof -
  have "dec_with t f x = Some (v, [])"
    using assms by (auto simp: elem_def split: option.splits list.splits)
  then show ?thesis by (rule dec_with_Some) (use that in simp)
qed

lemma const_val_Some: "const_val v c = Some u \<Longrightarrow> c = v"
  by (simp add: const_val_def split: if_splits)

lemma is_tlv_encode: "length c < der_bound \<Longrightarrow> is_tlv (encode_tlv t c)"
  using der_tlv_encode_tlv [of c t "[]"] by (simp add: is_tlv_def)

lemma is_tlv_D:
  assumes "is_tlv e"
  obtains t c where "e = encode_tlv t c" "length c < der_bound"
proof -
  obtain t c where d: "der_tlv e = Some (t, c, [])"
    using assms by (auto simp: is_tlv_def split: option.splits)
  show ?thesis using that [OF _ der_tlv_bound [OF d]] der_tlv_Some [OF d] by simp
qed

lemma dec_tlv_list_concat: "list_all is_tlv es \<Longrightarrow> dec_tlv_list (concat es) = Some es"
proof (induction es)
  case Nil
  then show ?case by simp
next
  case (Cons e es)
  then obtain t c where e: "e = encode_tlv t c" "length c < der_bound"
    by (auto elim: is_tlv_D)
  then have "der_tlv (e @ concat es) = Some (t, c, concat es)" by (simp add: der_tlv_encode_tlv)
  moreover have "e @ concat es \<noteq> []" using e(1) by (simp add: encode_tlv_def)
  ultimately show ?case using Cons e(1) by (subst dec_tlv_list.simps) simp
qed

lemma dec_tlv_list_Some:
  "dec_tlv_list bs = Some es \<Longrightarrow> list_all is_tlv es \<and> bs = concat es"
proof (induction bs arbitrary: es rule: dec_tlv_list.induct)
  case (1 bs)
  show ?case
  proof (cases "bs = []")
    case True
    with "1.prems" show ?thesis by simp
  next
    case False
    with "1.prems" obtain t c r es' where d: "der_tlv bs = Some (t, c, r)"
      and l: "dec_tlv_list r = Some es'" and es: "es = encode_tlv t c # es'"
      by (auto split: option.splits)
    have "is_tlv (encode_tlv t c)" by (rule is_tlv_encode [OF der_tlv_bound [OF d]])
    with "1.IH" [OF False d refl refl l] der_tlv_Some [OF d] es show ?thesis by simp
  qed
qed

declare dec_tlv_list.simps [simp del]

lemma cert_list_val_enc:
  "cs \<noteq> [] \<Longrightarrow> list_all is_tlv cs \<Longrightarrow> cert_list_val (concat cs) = Some cs"
proof -
  assume cs: "cs \<noteq> []" and t: "list_all is_tlv cs"
  then obtain e es where "cs = e # es" by (cases cs) auto
  moreover obtain tg c where "e = encode_tlv tg c" using t \<open>cs = e # es\<close> by (auto elim: is_tlv_D)
  ultimately have "concat cs \<noteq> []" by (simp add: encode_tlv_def)
  then show ?thesis using dec_tlv_list_concat [OF t] by (simp add: cert_list_val_def)
qed

lemma cert_list_val_Some:
  "cert_list_val c = Some cs \<Longrightarrow> cs \<noteq> [] \<and> list_all is_tlv cs \<and> c = concat cs"
  by (auto simp: cert_list_val_def split: if_splits dest: dec_tlv_list_Some)

lemma elem_inv:
  assumes "elem t f x = Some v" and "\<And>c v. f c = Some v \<Longrightarrow> c = g v"
  shows "x = encode_tlv t (g v)"
  using assms(1) by (rule elem_Some) (metis assms(2))

section \<open>Laws of the token envelope\<close>

lemma dec_encap_enc:
  assumes "length (enc_encap e) < der_bound"
  shows "dec_encap (enc_encap e) = Some e"
proof -
  have l: "length oid_ct_tstinfo < der_bound" "length (encode_tlv 0x04 e) < der_bound"
    "length e < der_bound"
    using assms by (simp_all add: enc_encap_def length_encode_tlv)
  have "dec_with 0x06 (const_val oid_ct_tstinfo) (enc_encap e)
        = Some ((), encode_tlv 0xA0 (encode_tlv 0x04 e))"
    unfolding enc_encap_def by (rule dec_with_enc [OF _ l(1)]) (simp add: const_val_def)
  moreover have "dec_with 0xA0 (elem 0x04 Some) (encode_tlv 0xA0 (encode_tlv 0x04 e) @ []) = Some (e, [])"
    by (rule dec_with_enc [where f = "elem 0x04 Some", OF elem_enc [OF _ l(3)] l(2)]) simp
  ultimately show ?thesis by (simp add: dec_encap_def)
qed

lemma dec_encap_Some:
  assumes "dec_encap c = Some e"
  shows "c = enc_encap e"
proof -
  obtain u c1 where s1: "dec_with 0x06 (const_val oid_ct_tstinfo) c = Some (u, c1)"
    and s2: "dec_with 0xA0 (elem 0x04 Some) c1 = Some (e, [])"
    using assms by (auto simp: dec_encap_def bind_eq_Some_conv split: if_splits)
  obtain x where x: "elem 0x04 Some x = Some e" and c1: "c1 = encode_tlv 0xA0 x"
    using s2 by (rule dec_with_Some) simp
  have "x = encode_tlv 0x04 e" using elem_inv [OF x, of id] by simp
  moreover have "c = encode_tlv 0x06 oid_ct_tstinfo @ c1"
    using dec_with_inv [OF s1, of "\<lambda>_. oid_ct_tstinfo"] const_val_Some by blast
  ultimately show ?thesis using c1 by (simp add: enc_encap_def)
qed

lemma dec_signer_enc:
  assumes "valid_oid (signatureAlgorithm env)" "length (enc_signer env) < der_bound"
  shows "dec_signer (enc_signer env) = Some (signatureAlgorithm env, signature env)"
proof -
  have l: "length (signatureAlgorithm env) < der_bound" "length (signature env) < der_bound"
    using assms(2) by (simp_all add: enc_signer_def length_encode_tlv)
  have "dec_with 0x06 oid_val (enc_signer env)
        = Some (signatureAlgorithm env, encode_tlv 0x04 (signature env))"
    unfolding enc_signer_def using assms(1) by (intro dec_with_enc l(1)) (simp add: oid_val_def)
  moreover have "dec_with 0x04 Some (encode_tlv 0x04 (signature env) @ []) = Some (signature env, [])"
    by (rule dec_with_enc [OF _ l(2)]) simp
  ultimately show ?thesis by (simp add: dec_signer_def)
qed

lemma dec_signer_Some:
  assumes "dec_signer c = Some (a, sg)"
  shows "valid_oid a \<and> c = encode_tlv 0x06 a @ encode_tlv 0x04 sg"
proof -
  obtain c1 where s1: "dec_with 0x06 oid_val c = Some (a, c1)"
    and s2: "dec_with 0x04 Some c1 = Some (sg, [])"
    using assms by (auto simp: dec_signer_def bind_eq_Some_conv split: if_splits)
  obtain x where "oid_val x = Some a" "c = encode_tlv 0x06 x @ c1"
    using s1 by (rule dec_with_Some)
  moreover have "c1 = encode_tlv 0x04 sg" using dec_with_inv [OF s2, of id] by simp
  ultimately show ?thesis by (auto dest: oid_val_Some)
qed

lemma ne_certs: "(case ne cs of None \<Rightarrow> [] | Some l \<Rightarrow> l) = cs"
  by (simp add: ne_def)

lemma dec_sd_enc:
  assumes wf: "wf_env env" and len: "length (sd_body env) < der_bound"
  shows "dec_sd (sd_body env) = Some env"
proof -
  let ?S3 = "encode_tlv 0x30 (enc_signer env)"
  let ?S2 = "opt_enc 0xA0 (map_option concat (ne (certificates env))) @ ?S3"
  let ?S1 = "encode_tlv 0x30 (enc_encap (encodedContent env)) @ ?S2"
  have l: "length (enc_encap (encodedContent env)) < der_bound"
    "length (opt_enc 0xA0 (map_option concat (ne (certificates env)))) < der_bound"
    "length (enc_signer env) < der_bound"
    using len by (simp_all add: sd_body_def length_encode_tlv)
  have w: "dec_tst (encodedContent env) = Some (content env)" "valid_oid (signatureAlgorithm env)"
    "list_all is_tlv (certificates env)"
    using wf by (simp_all add: wf_env_def)
  have s1: "dec_with 0x02 (const_val [0x03]) (sd_body env) = Some ((), ?S1)"
    unfolding sd_body_def by (rule dec_with_enc) (simp_all add: const_val_def small_lt_der_bound)
  have s2: "dec_with 0x30 dec_encap ?S1 = Some (encodedContent env, ?S2)"
    by (rule dec_with_enc [where f = dec_encap, OF dec_encap_enc [OF l(1)] l(1)])
  have s3: "dec_opt_with 0xA0 cert_list_val ?S2 = Some (ne (certificates env), ?S3)"
    using l(2) w(3) by (intro dec_opt_with_enc) (auto simp: ne_def encode_tlv_def cert_list_val_enc split: if_splits)
  have s4: "dec_with 0x30 dec_signer (?S3 @ [])
            = Some ((signatureAlgorithm env, signature env), [])"
    by (rule dec_with_enc [where f = dec_signer, OF dec_signer_enc [OF w(2) l(3)] l(3)])
  show ?thesis
    using s1 s2 s3 s4 w(1) by (simp add: dec_sd_def ne_certs)
qed

lemma dec_sd_Some:
  assumes "dec_sd c = Some env"
  shows "wf_env env \<and> c = sd_body env"
proof -
  obtain u c1 e c2 cs c3 a sg tok where
    s1: "dec_with 0x02 (const_val [0x03]) c = Some (u, c1)" and
    s2: "dec_with 0x30 dec_encap c1 = Some (e, c2)" and
    s3: "dec_opt_with 0xA0 cert_list_val c2 = Some (cs, c3)" and
    s4: "dec_with 0x30 dec_signer c3 = Some ((a, sg), [])" and
    t: "dec_tst e = Some tok" and
    env: "env = \<lparr>content = tok, encodedContent = e, signature = sg, signatureAlgorithm = a,
                 certificates = (case cs of None \<Rightarrow> [] | Some l \<Rightarrow> l)\<rparr>"
    using assms by (auto simp: dec_sd_def bind_eq_Some_conv split: if_splits)
  have e1: "c = encode_tlv 0x02 [0x03] @ c1"
    using dec_with_inv [OF s1, of "\<lambda>_. [0x03]"] const_val_Some by blast
  have e2: "c1 = encode_tlv 0x30 (enc_encap e) @ c2"
    using dec_with_inv [OF s2] dec_encap_Some by blast
  have e3: "c2 = opt_enc 0xA0 (map_option concat cs) @ c3"
    using dec_opt_with_Some [OF s3] cert_list_val_Some by blast
  have cs: "cs = ne (case cs of None \<Rightarrow> [] | Some l \<Rightarrow> l)"
    and tl: "pred_option (list_all is_tlv) cs"
    using s3 by (cases cs; auto simp: ne_def dest!: dec_opt_with_Some_val cert_list_val_Some)+
  obtain y where y: "dec_signer y = Some (a, sg)" and e4: "c3 = encode_tlv 0x30 y"
    using s4 by (rule dec_with_Some) simp
  note sg = dec_signer_Some [OF y]
  have "c = sd_body env"
    using e1 e2 e3 e4 sg cs env by (simp add: sd_body_def enc_signer_def)
  moreover have "wf_env env"
    using t sg tl env by (cases cs) (simp_all add: wf_env_def)
  ultimately show ?thesis by simp
qed

lemma dec_env_enc:
  assumes "wf_env env" "length (enc_env env) < der_bound"
  shows "dec_env (enc_env env @ r) = Some (env, r)"
proof -
  let ?C = "encode_tlv 0x06 oid_signed_data @ encode_tlv 0xA0 (encode_tlv 0x30 (sd_body env))"
  have l: "length ?C < der_bound" "length (encode_tlv 0x30 (sd_body env)) < der_bound"
    "length (sd_body env) < der_bound"
    using assms(2) by (simp_all add: enc_env_def length_encode_tlv)
  have "expect_tlv 0x30 (enc_env env @ r) = Some (?C, r)"
    unfolding enc_env_def by (rule expect_tlv_encode [OF l(1)])
  moreover have "dec_with 0x06 (const_val oid_signed_data) ?C
                 = Some ((), encode_tlv 0xA0 (encode_tlv 0x30 (sd_body env)))"
    by (rule dec_with_enc) (simp_all add: const_val_def oid_signed_data_def small_lt_der_bound)
  moreover have "dec_with 0xA0 (elem 0x30 dec_sd) (encode_tlv 0xA0 (encode_tlv 0x30 (sd_body env)) @ [])
                 = Some (env, [])"
    by (rule dec_with_enc [where f = "elem 0x30 dec_sd",
        OF elem_enc [where f = dec_sd, OF dec_sd_enc [OF assms(1) l(3)] l(3)] l(2)])
  ultimately show ?thesis by (simp add: dec_env_def)
qed

lemma dec_env_Some:
  assumes "dec_env bs = Some (env, r)"
  shows "wf_env env \<and> bs = enc_env env @ r"
proof -
  obtain c u c1 where s0: "expect_tlv 0x30 bs = Some (c, r)"
    and s1: "dec_with 0x06 (const_val oid_signed_data) c = Some (u, c1)"
    and s2: "dec_with 0xA0 (elem 0x30 dec_sd) c1 = Some (env, [])"
    using assms by (auto simp: dec_env_def bind_eq_Some_conv split: if_splits)
  obtain x where x: "elem 0x30 dec_sd x = Some env" and c1: "c1 = encode_tlv 0xA0 x"
    using s2 by (rule dec_with_Some) simp
  obtain y where y: "dec_sd y = Some env" and "x = encode_tlv 0x30 y"
    using x by (rule elem_Some)
  with dec_sd_Some [OF y] have x': "x = encode_tlv 0x30 (sd_body env)" and "wf_env env" by simp_all
  moreover have "c = encode_tlv 0x06 oid_signed_data @ c1"
    using dec_with_inv [OF s1, of "\<lambda>_. oid_signed_data"] const_val_Some by blast
  ultimately show ?thesis
    using expect_tlv_Some [OF s0] c1 by (simp add: enc_env_def)
qed

section \<open>Laws of the status information and the response\<close>

lemma dec_status_info_enc:
  assumes "length (enc_status_info st fi) < der_bound"
  shows "dec_status_info (enc_status_info st fi @ r) = Some ((st, fi), r)"
proof -
  let ?F = "opt_enc 0x03 (map_option (enc_bit \<circ> failure_bit) fi)"
  let ?C = "encode_tlv 0x02 (enc_int (status_code st)) @ ?F"
  have l: "length ?C < der_bound" "length (enc_int (status_code st)) < der_bound" "length ?F < der_bound"
    using assms by (simp_all add: enc_status_info_def length_encode_tlv)
  have "expect_tlv 0x30 (enc_status_info st fi @ r) = Some (?C, r)"
    unfolding enc_status_info_def by (rule expect_tlv_encode [OF l(1)])
  moreover have "dec_with 0x02 status_val ?C = Some (st, ?F)"
    by (rule dec_with_enc [where f = status_val, OF status_val_enc l(2)])
  moreover have "dec_opt_with 0x03 failure_val (?F @ []) = Some (fi, [])"
    using l(3) by (intro dec_opt_with_enc) auto
  ultimately show ?thesis by (simp add: dec_status_info_def)
qed

lemma dec_status_info_Some:
  assumes "dec_status_info bs = Some ((st, fi), r)"
  shows "bs = enc_status_info st fi @ r"
proof -
  obtain c c1 where s0: "expect_tlv 0x30 bs = Some (c, r)"
    and s1: "dec_with 0x02 status_val c = Some (st, c1)"
    and s2: "dec_opt_with 0x03 failure_val c1 = Some (fi, [])"
    using assms by (auto simp: dec_status_info_def bind_eq_Some_conv split: if_splits)
  have h: "\<And>x v. failure_val x = Some v \<Longrightarrow> x = (enc_bit \<circ> failure_bit) v"
    unfolding comp_apply by (rule failure_val_Some)
  have "c = encode_tlv 0x02 (enc_int (status_code st)) @ c1"
    by (rule dec_with_inv [where g = "\<lambda>s. enc_int (status_code s)", OF s1 status_val_Some])
  moreover have "c1 = opt_enc 0x03 (map_option (enc_bit \<circ> failure_bit) fi)"
    using dec_opt_with_Some [where g = "enc_bit \<circ> failure_bit", OF s2 h] by simp
  ultimately show ?thesis using expect_tlv_Some [OF s0] by (simp add: enc_status_info_def)
qed


lemma enc_env_not_Nil [simp]: "enc_env env \<noteq> []"
  by (simp add: enc_env_def encode_tlv_def)

lemma resp_roundtrip:
  assumes wf: "wf_resp r" and len: "length (enc_resp r) < der_bound"
  shows "dec_resp (enc_resp r) = Some r"
proof -
  let ?T = "case timeStampToken r of None \<Rightarrow> [] | Some env \<Rightarrow> enc_env env"
  let ?B = "enc_status_info (status r) (failInfo r) @ ?T"
  have b: "length ?B < der_bound" using len by (simp add: enc_resp_def length_encode_tlv)
  then have ls: "length (enc_status_info (status r) (failInfo r)) < der_bound" by simp
  have s0: "expect_tlv 0x30 (enc_resp r) = Some (?B, [])"
    using expect_tlv_encode [OF b, of "0x30" "[]"] by (simp add: enc_resp_def)
  have s1: "dec_status_info ?B = Some ((status r, failInfo r), ?T)"
    by (rule dec_status_info_enc [OF ls])
  show ?thesis
  proof (cases "timeStampToken r")
    case None
    with s0 s1 show ?thesis by (cases r) (simp add: dec_resp_def)
  next
    case (Some env)
    have "wf_env env" using wf Some by (simp add: wf_resp_def)
    moreover have "length (enc_env env) < der_bound" using b Some by simp
    ultimately have "dec_env (enc_env env @ []) = Some (env, [])" by (rule dec_env_enc)
    with s0 s1 Some show ?thesis by (cases r) (simp add: dec_resp_def)
  qed
qed

lemma resp_canonical:
  assumes "dec_resp bs = Some r"
  shows "wf_resp r \<and> bs = enc_resp r"
proof -
  obtain c st fi c1 tok where s0: "expect_tlv 0x30 bs = Some (c, [])"
    and s1: "dec_status_info c = Some ((st, fi), c1)"
    and t: "(if c1 = [] then Some None
             else (case dec_env c1 of Some (env, []) \<Rightarrow> Some (Some env) | _ \<Rightarrow> None)) = Some tok"
    and r: "r = \<lparr>status = st, failInfo = fi, timeStampToken = tok\<rparr>"
    using assms by (auto simp: dec_resp_def bind_eq_Some_conv split: if_splits)
  have tok: "pred_option wf_env tok \<and> c1 = (case tok of None \<Rightarrow> [] | Some env \<Rightarrow> enc_env env)"
  proof (cases "c1 = []")
    case True
    with t show ?thesis by simp
  next
    case False
    with t obtain env where "dec_env c1 = Some (env, [])" "tok = Some env"
      by (auto split: option.splits prod.splits list.splits)
    with dec_env_Some [of c1 env "[]"] show ?thesis by simp
  qed
  then show ?thesis
    using expect_tlv_Some [OF s0] dec_status_info_Some [OF s1] r
    by (simp add: enc_resp_def wf_resp_def)
qed

lemma length_encodedContent_resp:
  "timeStampToken r = Some env \<Longrightarrow> length (encodedContent env) < length (enc_resp r)"
  by (simp add: enc_resp_def enc_env_def sd_body_def enc_encap_def length_encode_tlv)

subsection \<open>Test vectors: rejections on the wire\<close>

lemma ex_resp_bad_data_format:
  "enc_resp \<lparr>status = Rejection, failInfo = Some BadDataFormat, timeStampToken = None\<rparr>
   = [0x30, 0x09, 0x30, 0x07, 0x02, 0x01, 0x02, 0x03, 0x02, 0x02, 0x04]"
  by (simp add: enc_resp_def enc_status_info_def encode_tlv_def encode_len_def enc_bit_def enc_int.simps)

lemma ex_resp_system_failure:
  "enc_resp \<lparr>status = Rejection, failInfo = Some SystemFailure, timeStampToken = None\<rparr>
   = [0x30, 0x0C, 0x30, 0x0A, 0x02, 0x01, 0x02, 0x03, 0x05, 0x06, 0x00, 0x00, 0x00, 0x40]"
  by (simp add: enc_resp_def enc_status_info_def encode_tlv_def encode_len_def enc_bit_def enc_int.simps numeral_3_eq_3)

end
