(* ===== verification/Tsa_Der.thy ===== *)
theory Tsa_Der
  imports Tsa_Service Response_Codec
begin

text \<open>
  The deployed operation with the DER request codec of \<open>Tsp_Codec\<close> in place of the
  engine's codec interface. The token encoding the signature covers is left a parameter:
  the claims hold for every canonical token encoder.
\<close>

section \<open>The DER codec\<close>

definition der_codec :: "(TSTInfo \<Rightarrow> byte list) \<Rightarrow> tsp_codec" where
  "der_codec enc = \<lparr>decode_req = dec_req, encode_tst = enc\<rparr>"

text \<open>The operation whose decoder hands the engine one fixed request, whatever the body.\<close>

definition fixed_codec :: "TimeStampReq \<Rightarrow> (TSTInfo \<Rightarrow> byte list) \<Rightarrow> tsp_codec" where
  "fixed_codec req enc = \<lparr>decode_req = (\<lambda>_. Some req), encode_tst = enc\<rparr>"

text \<open>
  What the DER encodings need of the configuration and the signing identity: the policies
  and signature algorithms it may put into a token are valid object identifiers, and each
  certificate of the chain is one DER element.
\<close>

definition der_config_ok :: "tsa_config \<Rightarrow> SigningIdentity \<Rightarrow> bool" where
  "der_config_ok cfg ident \<longleftrightarrow> list_all valid_oid (policies cfg)
     \<and> pred_option valid_oid (default_policy cfg) \<and> list_all valid_oid (sig_algs cfg)
     \<and> list_all is_tlv (cert_chain ident)"

section \<open>Properties\<close>

lemma process_request_decoded:
  assumes "decode_req cd bs = Some req" "decode_req cd' bs' = Some req" "encode_tst cd = encode_tst cd'"
  shows "process_request cfg cd bs w = process_request cfg cd' bs' w"
  using assms(1,2) unfolding process_request_def assms(3) by simp

lemma negotiate_policy_Some:
  "outcome_policy (negotiate_policy cfg p) = Some q \<Longrightarrow> q \<in> set (policies cfg) \<or> default_policy cfg = Some q"
  by (auto simp: negotiate_policy_def split: option.splits if_splits)

lemma build_token_exts: "build_token cfg req sn now = Inr (tok, oc) \<Longrightarrow> tst_extensions tok = []"
  by (auto simp: build_token_def Let_def split: option.splits)

lemma granted_env_wf:
  assumes ok: "der_config_ok cfg ident" and req: "wf_req req" and now: "now < gentime_limit"
    and bt: "build_token cfg req sn now = Inr (tok, oc)"
    and sg: "sign_token cfg enc_tst ident tok inc = Inr env"
    and len: "length (encodedContent env) < der_bound"
  shows "wf_env env"
proof -
  note b = build_token_Inr [OF bt] and s = sign_token_Inr [OF sg]
  have "valid_oid (policy tok)"
    using negotiate_policy_Some [of cfg "reqPolicy req" "policy tok"] b ok
    by (auto simp: der_config_ok_def list_all_iff)
  then have "wf_tst tok"
    using b req now build_token_exts [OF bt] by (simp add: wf_tst_def wf_req_def)
  then have "dec_tst (encodedContent env) = Some (content env)"
    using s len tst_roundtrip by simp
  moreover have "valid_oid (signatureAlgorithm env)" "list_all is_tlv (certificates env)"
    using s ok by (auto simp: der_config_ok_def list_all_iff)
  ultimately show ?thesis by (simp add: wf_env_def)
qed

lemma process_request_der_wf_resp:
  assumes "der_config_ok cfg (identity w)" "clock w < gentime_limit"
    and "length (enc_resp (fst (process_request cfg (der_codec enc_tst) bs w))) < der_bound"
  shows "wf_resp (fst (process_request cfg (der_codec enc_tst) bs w))"
proof (cases "timeStampToken (fst (process_request cfg (der_codec enc_tst) bs w))")
  case None
  then show ?thesis by (simp add: wf_resp_def)
next
  case (Some env)
  let ?pr = "process_request cfg (der_codec enc_tst) bs w"
  have pr: "?pr = (fst ?pr, snd ?pr)" by simp
  obtain req sn a' tok oc where
    dec: "decode_req (der_codec enc_tst) bs = Some req" and
    bt: "build_token cfg req sn (clock w) = Inr (tok, oc)" and
    sg: "sign_token cfg (encode_tst (der_codec enc_tst)) (identity w) tok (certReq req) = Inr env"
    using process_request_granted [OF pr Some] by metis
  have "wf_req req" using dec tsp_request_canonical by (simp add: der_codec_def)
  moreover have "length (encodedContent env) < der_bound"
    using length_encodedContent_resp [OF Some] assms(3) by simp
  ultimately have "wf_env env"
    using granted_env_wf [OF assms(1) _ assms(2) bt] sg by (simp add: der_codec_def)
  with Some show ?thesis by (simp add: wf_resp_def)
qed

lemma demo_der_decode: "decode_req (der_codec enc_tst) (enc_req ex_req) = Some ex_req"
  by (simp add: der_codec_def ex_req_roundtrip)

lemma demo_der_resp_len:
  "length (enc_resp (fst (process_request demo_cfg (der_codec enc_tst) (enc_req ex_req) demo_world))) < der_bound"
  unfolding process_request_def demo_der_decode
  by (rule small_lt_der_bound)
     (simp add: der_codec_def validate_request_def policy_acceptable_def
      unsupported_critical_def next_serial_def build_token_def negotiate_policy_def sign_token_def
      valid_at_def Let_def demo_defs ex_req_def grant_resp_def enc_resp_def enc_status_info_def
      enc_env_def sd_body_def enc_encap_def enc_signer_def ne_def length_encode_tlv encode_len_def
      enc_tst_def tst_body_def ex_gentime enc_imprint_def enc_alg_def enc_serial_def acc_body_def
      nz_def enc_pos_def enc_bool_default_def enc_exts_def enc_int.simps oid_sha256_def encode_tlv_def
      oid_ct_tstinfo_def oid_signed_data_def oid_ecdsa_sha256_def be_bytes_one be_bytes_two)

text \<open>
  C15. A client's request reaches the engine intact: serving the DER encoding of a
  well-formed request through the generated \<open>ServeHTTP\<close> gives the same outcome, state
  and response as serving any body through an operation whose decoder hands the engine
  that very request. Decoding inverts encoding on everything a client can send.
\<close>

theorem tsa_der_request_served:
  assumes "route_request ctx (request st) = (Some rt, r)"
    and "BindValidRequest ctx r (Some rt) pinit = (None, P)"
    and "Request P = enc_req req" and "wf_req req" and "length (enc_req req) < der_bound"
  shows "ServeHTTP (tsa_operation ctx cfg (der_codec enc)) pinit st =
         ServeHTTP (tsa_operation ctx cfg (fixed_codec req enc)) pinit st"
proof -
  have "decode_req (der_codec enc) (Request P) = Some req"
    using tsp_request_roundtrip [OF assms(4,5)] assms(3) by (simp add: der_codec_def)
  then have "process_request cfg (der_codec enc) (Request P) (world st)
           = process_request cfg (fixed_codec req enc) (Request P) (world st)"
    by (rule process_request_decoded) (simp_all add: fixed_codec_def der_codec_def)
  then show ?thesis
    using ServeHTTP_tsa_bound [OF assms(1,2)] by simp
qed

text \<open>
  C16. A truncated request (a proper prefix of an encoding) or one followed by trailing
  octets is answered, through \<open>ServeHTTP\<close>, with a rejection carrying \<open>badDataFormat\<close>;
  the engine's state is untouched: no serial is consumed and nothing is signed.
\<close>

theorem tsa_der_malformed_rejected:
  assumes "route_request ctx (request st) = (Some rt, r)"
    and "BindValidRequest ctx r (Some rt) pinit = (None, P)"
    and "length (req_body req) < der_bound"
    and "(\<exists>k < length (enc_req req). Request P = take k (enc_req req))
         \<or> (\<exists>z. z \<noteq> [] \<and> Request P = enc_req req @ z)"
  shows "ServeHTTP (tsa_operation ctx cfg (der_codec enc)) pinit st =
    (None, st\<lparr>request := r,
              written := written st @ [\<lparr>resp_request = r, resp_produces = Produces rt, resp_route = rt,
                 resp_data = RespondResponder (reject_resp BadDataFormat)\<rparr>]\<rparr>)"
proof -
  have "dec_req (Request P) = None"
    using assms(4) dec_req_truncated [OF assms(3)] dec_req_trailing [OF assms(3)] by auto
  then have "process_request cfg (der_codec enc) (Request P) (world st) = (reject_resp BadDataFormat, world st)"
    by (intro process_request_undecodable) (simp add: der_codec_def)
  then show ?thesis
    using ServeHTTP_tsa_bound [OF assms(1,2)] by simp
qed

text \<open>
  C19. Every response the deployed operation writes, with the DER codec on both sides, is
  read back exactly by a client: decoding its DER encoding gives the response itself,
  status, failure information and token alike, whenever the configuration's policies and
  signature algorithms are valid identifiers, the certificates are DER elements, the clock
  reads before year 10000 and the response fits the length form. In particular a granted
  token's signed octets decode to the very token the signature was made over.
\<close>

theorem tsa_der_response_wire:
  assumes "route_request ctx (request st) = (Some rt, r)"
    and "BindValidRequest ctx r (Some rt) pinit = (None, P)"
    and "der_config_ok cfg (identity (world st))" and "clock (world st) < gentime_limit"
    and "ServeHTTP (tsa_operation ctx cfg (der_codec enc_tst)) pinit st = (out, st')"
    and "c \<in> set (written st')" and "c \<notin> set (written st)"
    and "resp_data c = RespondResponder resp"
    and "length (enc_resp resp) < der_bound"
  shows "dec_resp (enc_resp resp) = Some resp"
proof -
  have "resp = fst (process_request cfg (der_codec enc_tst) (Request P) (world st))"
    using ServeHTTP_tsa_bound [OF assms(1,2), of cfg "der_codec enc_tst"] assms(5-8) by auto
  then have "wf_resp resp"
    using process_request_der_wf_resp [OF assms(3,4)] assms(9) by simp
  then show ?thesis by (rule resp_roundtrip [OF _ assms(9)])
qed

theorem tsa_der_request_served_witness:
  "ServeHTTP (tsa_operation demo_tsa_ctx demo_cfg (der_codec (\<lambda>_. []))) \<lparr>Request = []\<rparr>
      \<lparr>request = enc_req ex_req, written = [], world = demo_world\<rparr>
   = ServeHTTP (tsa_operation demo_tsa_ctx demo_cfg (fixed_codec ex_req (\<lambda>_. []))) \<lparr>Request = []\<rparr>
      \<lparr>request = enc_req ex_req, written = [], world = demo_world\<rparr>"
proof (rule tsa_der_request_served)
  show "route_request demo_tsa_ctx (request \<lparr>request = enc_req ex_req, written = [], world = demo_world\<rparr>)
      = (Some tsr_route, enc_req ex_req)"
    by (simp add: demo_tsa_ctx_def route_request_def)
  show "BindValidRequest demo_tsa_ctx (enc_req ex_req) (Some tsr_route) \<lparr>Request = []\<rparr>
      = (None, \<lparr>Request = enc_req ex_req\<rparr>)"
    by (simp add: demo_tsa_ctx_def ex_req_bytes)
qed (simp_all add: ex_req_wf ex_req_len)

theorem tsa_der_malformed_rejected_witness:
  "ServeHTTP (tsa_operation demo_tsa_ctx demo_cfg (der_codec (\<lambda>_. []))) \<lparr>Request = []\<rparr>
      \<lparr>request = take 40 (enc_req ex_req), written = [], world = demo_world\<rparr>
   = (None, \<lparr>request = take 40 (enc_req ex_req),
             written = [\<lparr>resp_request = take 40 (enc_req ex_req), resp_produces = Produces tsr_route,
                         resp_route = tsr_route, resp_data = RespondResponder (reject_resp BadDataFormat)\<rparr>],
             world = demo_world\<rparr>)"
proof -
  let ?st = "\<lparr>request = take 40 (enc_req ex_req), written = [], world = demo_world\<rparr>
             :: (byte list, string, TimeStampResp, tsa_world) serve_state"
  have r: "route_request demo_tsa_ctx (request ?st) = (Some tsr_route, take 40 (enc_req ex_req))"
    by (simp add: demo_tsa_ctx_def route_request_def)
  have b: "BindValidRequest demo_tsa_ctx (take 40 (enc_req ex_req)) (Some tsr_route) \<lparr>Request = []\<rparr>
      = (None, \<lparr>Request = take 40 (enc_req ex_req)\<rparr>)"
    by (simp add: demo_tsa_ctx_def ex_req_bytes)
  have d: "(\<exists>k < length (enc_req ex_req). Request \<lparr>Request = take 40 (enc_req ex_req)\<rparr> = take k (enc_req ex_req))
      \<or> (\<exists>z. z \<noteq> [] \<and> Request \<lparr>Request = take 40 (enc_req ex_req)\<rparr> = enc_req ex_req @ z)"
    by (rule disjI1, rule exI [of _ 40]) (simp add: ex_req_bytes)
  from tsa_der_malformed_rejected [OF r b ex_req_body_len d, of demo_cfg "\<lambda>_. []"] show ?thesis
    by simp
qed

theorem tsa_der_response_wire_witness:
  "dec_resp (enc_resp (fst (process_request demo_cfg (der_codec enc_tst) (enc_req ex_req) demo_world)))
   = Some (fst (process_request demo_cfg (der_codec enc_tst) (enc_req ex_req) demo_world))"
proof -
  let ?op = "tsa_operation demo_tsa_ctx demo_cfg (der_codec enc_tst)"
  let ?st = "\<lparr>request = enc_req ex_req, written = [], world = demo_world\<rparr>
             :: (byte list, string, TimeStampResp, tsa_world) serve_state"
  let ?R = "fst (process_request demo_cfg (der_codec enc_tst) (enc_req ex_req) demo_world)"
  let ?c = "\<lparr>resp_request = enc_req ex_req, resp_produces = Produces tsr_route, resp_route = tsr_route,
             resp_data = RespondResponder ?R\<rparr> :: (byte list, string, TimeStampResp) respond_call"
  have r: "route_request demo_tsa_ctx (request ?st) = (Some tsr_route, enc_req ex_req)" by simp
  have b: "BindValidRequest demo_tsa_ctx (enc_req ex_req) (Some tsr_route) \<lparr>Request = []\<rparr>
      = (None, \<lparr>Request = enc_req ex_req\<rparr>)"
    by (simp add: ex_req_bytes)
  have ok: "der_config_ok demo_cfg (identity (world ?st))"
    by (simp add: der_config_ok_def demo_defs valid_oid_def is_tlv_def der_tlv_def decode_len_def)
  have clk: "clock (world ?st) < gentime_limit"
    using gentime_limit_ge by (simp add: demo_world_def)
  have s: "ServeHTTP ?op \<lparr>Request = []\<rparr> ?st
           = (fst (ServeHTTP ?op \<lparr>Request = []\<rparr> ?st), snd (ServeHTTP ?op \<lparr>Request = []\<rparr> ?st))"
    by simp
  have m: "?c \<in> set (written (snd (ServeHTTP ?op \<lparr>Request = []\<rparr> ?st)))"
    using ServeHTTP_tsa_bound [OF r b, of demo_cfg "der_codec enc_tst"] by simp
  show ?thesis
    using tsa_der_response_wire [OF r b ok clk s m _ _ demo_der_resp_len] by simp
qed

end
