(* ===== verification/Serve_Concurrent.thy ===== *)
theory Serve_Concurrent
  imports Timestamp_Response
begin

text \<open>
  \<open>ServeHTTP\<close> under concurrency. The HTTP server runs one goroutine per request; the
  goroutines share nothing but the world captured by the handler. Each goroutine goes
  through the control points of \<open>ServeHTTP\<close> one call at a time: routing and request
  replacement (lines 59--62), binding (63--64), the handler call (69), the \<open>Respond\<close>
  call (65 or 70). A schedule, a list of goroutine indices, says who moves next, so every
  interleaving of the calls is some schedule. The handler call is one atomic step on the
  shared world; what the handler does inside it is the handler's own business. A ghost log
  records which goroutine called the handler with which parameters, in order.
\<close>

section \<open>Goroutines and their steps\<close>

datatype ('p, 'e, 'res) serve_pc =
  PcStart
| PcRouted "MatchedRoute option"
| PcHandle "MatchedRoute option" 'p
| PcRespond "MatchedRoute option" "('e, 'res) respond_data"
| PcDone
| PcPanicked go_panic

record ('req, 'p, 'e, 'res) goroutine =
  g_pc :: "('p, 'e, 'res) serve_pc"
  g_request :: 'req
  g_written :: "('req, 'e, 'res) respond_call list"

text \<open>One call of one goroutine: its new control point and local state, the new world,
  and the parameters it handed to the handler, if this step was the handler call.\<close>

fun thread_step ::
  "('req, 'p, 'e, 's, 'res) TimestampResponse \<Rightarrow> 'p \<Rightarrow> ('req, 'p, 'e, 'res) goroutine \<Rightarrow> 's
   \<Rightarrow> ('req, 'p, 'e, 'res) goroutine \<times> 's \<times> 'p option" where
  "thread_step tr params0 g w =
     (case g_pc g of
        PcStart \<Rightarrow>
          (case route_request (Context tr) (g_request g) of
             (route, r) \<Rightarrow> (g\<lparr>g_pc := PcRouted route, g_request := r\<rparr>, w, None))
      | PcRouted route \<Rightarrow>
          (case BindValidRequest (Context tr) (g_request g) route params0 of
             (Some err, _) \<Rightarrow> (g\<lparr>g_pc := PcRespond route (RespondError err)\<rparr>, w, None)
           | (None, P) \<Rightarrow> (g\<lparr>g_pc := PcHandle route P\<rparr>, w, None))
      | PcHandle route P \<Rightarrow>
          (case Handle (Handler tr) P w of
             (res, w') \<Rightarrow> (g\<lparr>g_pc := PcRespond route (RespondResponder res)\<rparr>, w', Some P))
      | PcRespond route data \<Rightarrow>
          (case respond route data \<lparr>request = g_request g, written = g_written g, world = ()\<rparr> of
             (Some p, _) \<Rightarrow> (g\<lparr>g_pc := PcPanicked p\<rparr>, w, None)
           | (None, st) \<Rightarrow> (g\<lparr>g_pc := PcDone, g_written := written st\<rparr>, w, None))
      | _ \<Rightarrow> (g, w, None))"

record ('req, 'p, 'e, 'res, 's) server =
  threads :: "('req, 'p, 'e, 'res) goroutine list"
  shared :: 's
  handled :: "(nat \<times> 'p) list"

text \<open>One scheduling decision: goroutine \<open>i\<close> makes one call (an index out of range is a no-op).\<close>

definition sched_step ::
  "('req, 'p, 'e, 's, 'res) TimestampResponse \<Rightarrow> 'p \<Rightarrow> nat
   \<Rightarrow> ('req, 'p, 'e, 'res, 's) server \<Rightarrow> ('req, 'p, 'e, 'res, 's) server" where
  "sched_step tr params0 i sv =
     (if i < length (threads sv) then
        (case thread_step tr params0 (threads sv ! i) (shared sv) of
           (g', w', h) \<Rightarrow>
             sv\<lparr>threads := (threads sv)[i := g'], shared := w',
                handled := handled sv @ (case h of None \<Rightarrow> [] | Some P \<Rightarrow> [(i, P)])\<rparr>)
      else sv)"

fun sched_run ::
  "('req, 'p, 'e, 's, 'res) TimestampResponse \<Rightarrow> 'p \<Rightarrow> nat list
   \<Rightarrow> ('req, 'p, 'e, 'res, 's) server \<Rightarrow> ('req, 'p, 'e, 'res, 's) server" where
  "sched_run tr params0 [] sv = sv"
| "sched_run tr params0 (i # is) sv = sched_run tr params0 is (sched_step tr params0 i sv)"

definition start_server :: "'req list \<Rightarrow> 's \<Rightarrow> ('req, 'p, 'e, 'res, 's) server" where
  "start_server rs w =
     \<lparr>threads = map (\<lambda>r. \<lparr>g_pc = PcStart, g_request = r, g_written = []\<rparr>) rs, shared = w, handled = []\<rparr>"

text \<open>A goroutine run alone, \<open>n\<close> calls, and the outcome of \<open>ServeHTTP\<close> it stands for.\<close>

fun thread_run ::
  "nat \<Rightarrow> ('req, 'p, 'e, 's, 'res) TimestampResponse \<Rightarrow> 'p \<Rightarrow> ('req, 'p, 'e, 'res) goroutine \<Rightarrow> 's
   \<Rightarrow> ('req, 'p, 'e, 'res) goroutine \<times> 's" where
  "thread_run 0 tr params0 g w = (g, w)"
| "thread_run (Suc n) tr params0 g w =
     (case thread_step tr params0 g w of (g', w', _) \<Rightarrow> thread_run n tr params0 g' w')"

fun pc_outcome :: "('p, 'e, 'res) serve_pc \<Rightarrow> go_panic option" where
  "pc_outcome (PcPanicked p) = Some p"
| "pc_outcome _ = None"

section \<open>The invariant of a running server\<close>

text \<open>
  What a goroutine knows at each control point about the request \<open>r0\<close> it was started
  with: the routed request and route, the bound parameters, and that nothing is written
  before the \<open>Respond\<close> call. \<open>server_inv\<close> adds the shared facts: the world is the
  handler run over the logged parameters, in log order; no goroutine is logged twice; a
  goroutine before its handler call is not logged, and after it is logged exactly when its
  request binds. \<open>pc_rank\<close> counts the calls a goroutine has left.
\<close>


text \<open>A response fits the binding: the binding error exactly when binding failed.\<close>

fun data_matches ::
  "('req, 'p, 'e) Context \<Rightarrow> 'p \<Rightarrow> 'req \<Rightarrow> MatchedRoute option \<Rightarrow> ('e, 'res) respond_data \<Rightarrow> bool" where
  "data_matches ctx params0 r route (RespondError err) \<longleftrightarrow>
     fst (BindValidRequest ctx r route params0) = Some err"
| "data_matches ctx params0 r route (RespondResponder _) \<longleftrightarrow>
     fst (BindValidRequest ctx r route params0) = None"

definition g_inv ::
  "('req, 'p, 'e, 's, 'res) TimestampResponse \<Rightarrow> 'p \<Rightarrow> 'req \<Rightarrow> ('req, 'p, 'e, 'res) goroutine \<Rightarrow> bool" where
  "g_inv tr params0 r0 g =
     (case g_pc g of
        PcStart \<Rightarrow> g_request g = r0 \<and> g_written g = []
      | PcRouted route \<Rightarrow> route_request (Context tr) r0 = (route, g_request g) \<and> g_written g = []
      | PcHandle route P \<Rightarrow> route_request (Context tr) r0 = (route, g_request g)
          \<and> bound_params (Context tr) params0 r0 = Some P \<and> g_written g = []
      | PcRespond route data \<Rightarrow> route_request (Context tr) r0 = (route, g_request g) \<and> g_written g = []
          \<and> data_matches (Context tr) params0 (g_request g) route data
      | PcDone \<Rightarrow> (\<exists>rt data. route_request (Context tr) r0 = (Some rt, g_request g)
          \<and> g_written g = [\<lparr>resp_request = g_request g, resp_produces = Produces rt, resp_route = rt,
                             resp_data = data\<rparr>]
          \<and> data_matches (Context tr) params0 (g_request g) (Some rt) data)
      | PcPanicked _ \<Rightarrow> g_written g = [] \<and> fst (route_request (Context tr) r0) = None)"

fun pre_handle :: "('p, 'e, 'res) serve_pc \<Rightarrow> bool" where
  "pre_handle PcStart = True"
| "pre_handle (PcRouted _) = True"
| "pre_handle (PcHandle _ _) = True"
| "pre_handle _ = False"

definition server_inv ::
  "('req, 'p, 'e, 's, 'res) TimestampResponse \<Rightarrow> 'p \<Rightarrow> 'req list \<Rightarrow> 's
   \<Rightarrow> ('req, 'p, 'e, 'res, 's) server \<Rightarrow> bool" where
  "server_inv tr params0 rs w0 sv \<longleftrightarrow>
     length (threads sv) = length rs
   \<and> shared sv = run_states (Handle (Handler tr)) (map snd (handled sv)) w0
   \<and> distinct (map fst (handled sv))
   \<and> (\<forall>(i, P) \<in> set (handled sv). i < length rs \<and> bound_params (Context tr) params0 (rs ! i) = Some P)
   \<and> (\<forall>i < length rs. g_inv tr params0 (rs ! i) (threads sv ! i)
        \<and> (pre_handle (g_pc (threads sv ! i)) \<longrightarrow> i \<notin> set (map fst (handled sv)))
        \<and> (\<not> pre_handle (g_pc (threads sv ! i)) \<longrightarrow>
             (i \<in> set (map fst (handled sv)) \<longleftrightarrow> bound_params (Context tr) params0 (rs ! i) \<noteq> None)))"

fun pc_rank :: "('p, 'e, 'res) serve_pc \<Rightarrow> nat" where
  "pc_rank PcStart = 4"
| "pc_rank (PcRouted _) = 3"
| "pc_rank (PcHandle _ _) = 2"
| "pc_rank (PcRespond _ _) = 1"
| "pc_rank _ = 0"

section \<open>Preservation and progress\<close>

lemma bound_params_SomeD:
  "bound_params ctx params0 r0 = Some P \<Longrightarrow> route_request ctx r0 = (route, r) \<Longrightarrow>
     BindValidRequest ctx r route params0 = (None, P)"
  by (auto simp: bound_params_def split: option.splits prod.splits)

lemma thread_step_inv:
  assumes inv: "g_inv tr params0 r0 g" and st: "thread_step tr params0 g w = (g', w', h)"
  shows "g_inv tr params0 r0 g'
       \<and> (case h of
            None \<Rightarrow> w' = w \<and> (pre_handle (g_pc g') \<longrightarrow> pre_handle (g_pc g))
              \<and> (pre_handle (g_pc g) \<and> \<not> pre_handle (g_pc g') \<longrightarrow> bound_params (Context tr) params0 r0 = None)
          | Some P \<Rightarrow> w' = snd (Handle (Handler tr) P w) \<and> pre_handle (g_pc g)
              \<and> \<not> pre_handle (g_pc g') \<and> bound_params (Context tr) params0 r0 = Some P)"
proof (cases "g_pc g")
  case PcStart
  then show ?thesis using inv st
    by (auto simp: g_inv_def split: prod.splits)
next
  case (PcRouted route)
  then show ?thesis using inv st
    by (auto simp: g_inv_def bound_params_def split: prod.splits option.splits)
next
  case (PcHandle route P)
  obtain res w1 where hd: "Handle (Handler tr) P w = (res, w1)" by fastforce
  from PcHandle inv have bp: "bound_params (Context tr) params0 r0 = Some P"
    by (simp add: g_inv_def)
  from PcHandle inv have "route_request (Context tr) r0 = (route, g_request g)"
    by (simp add: g_inv_def)
  with bp have "BindValidRequest (Context tr) (g_request g) route params0 = (None, P)"
    by (rule bound_params_SomeD)
  moreover note bp
  moreover from PcHandle st hd have "g' = g\<lparr>g_pc := PcRespond route (RespondResponder res)\<rparr>"
      and "w' = w1" and "h = Some P" by simp_all
  ultimately show ?thesis using PcHandle inv hd
    by (simp add: g_inv_def)
next
  case (PcRespond route data)
  then show ?thesis using inv st
    by (cases route) (auto simp: g_inv_def respond_def)
next
  case PcDone
  then show ?thesis using inv st by (auto simp: g_inv_def)
next
  case (PcPanicked p)
  then show ?thesis using inv st by (auto simp: g_inv_def)
qed

lemma sched_step_length [simp]: "length (threads (sched_step tr params0 i sv)) = length (threads sv)"
  by (simp add: sched_step_def split: prod.splits)

lemma sched_step_inv:
  assumes inv: "server_inv tr params0 rs w0 sv"
  shows "server_inv tr params0 rs w0 (sched_step tr params0 i sv)"
proof (cases "i < length rs")
  case False
  with inv show ?thesis by (simp add: sched_step_def server_inv_def)
next
  case True
  obtain g' w' h where st: "thread_step tr params0 (threads sv ! i) (shared sv) = (g', w', h)"
    by (metis prod_cases3)
  have len: "length (threads sv) = length rs" using inv by (simp add: server_inv_def)
  have gi: "g_inv tr params0 (rs ! i) (threads sv ! i)"
    and pre: "pre_handle (g_pc (threads sv ! i)) \<Longrightarrow> i \<notin> set (map fst (handled sv))"
    using inv True by (simp_all add: server_inv_def)
  note ts = thread_step_inv [OF gi st]
  have sv': "sched_step tr params0 i sv =
      sv\<lparr>threads := (threads sv)[i := g'], shared := w',
         handled := handled sv @ (case h of None \<Rightarrow> [] | Some P \<Rightarrow> [(i, P)])\<rparr>"
    using True len st by (simp add: sched_step_def)
  show ?thesis
  proof (cases h)
    case None
    with inv ts True len show ?thesis
      unfolding sv' server_inv_def by (auto simp: nth_list_update)
  next
    case (Some P)
    with ts pre have ni: "i \<notin> set (map fst (handled sv))" by simp
    with Some inv ts True len show ?thesis
      unfolding sv' server_inv_def by (auto simp: nth_list_update)
  qed
qed

lemma start_server_inv: "server_inv tr params0 rs w0 (start_server rs w0)"
  by (simp add: server_inv_def start_server_def g_inv_def)

lemma sched_run_inv:
  "server_inv tr params0 rs w0 sv \<Longrightarrow> server_inv tr params0 rs w0 (sched_run tr params0 sched sv)"
  by (induction sched arbitrary: sv) (simp_all add: sched_step_inv)

lemma g_inv_written: "g_inv tr params0 r0 g \<Longrightarrow> length (g_written g) \<le> 1"
  by (cases "g_pc g") (auto simp: g_inv_def)

lemma thread_step_rank:
  "pc_rank (g_pc (fst (thread_step tr params0 g w))) \<le> pc_rank (g_pc g) - 1"
proof (cases "g_pc g")
  case (PcRouted route)
  obtain e P where "BindValidRequest (Context tr) (g_request g) route params0 = (e, P)"
    by fastforce
  with PcRouted show ?thesis by (cases e) simp_all
next
  case (PcRespond route data)
  then show ?thesis by (cases route) (simp_all add: respond_def)
qed (simp_all split: prod.splits)

lemma pc_rank_0: "pc_rank pc = 0 \<longleftrightarrow> pc = PcDone \<or> (\<exists>p. pc = PcPanicked p)"
  by (cases pc) simp_all

lemma sched_step_nth:
  "j < length (threads sv) \<Longrightarrow> threads (sched_step tr params0 i sv) ! j =
     (if i = j then fst (thread_step tr params0 (threads sv ! i) (shared sv)) else threads sv ! j)"
  by (simp add: sched_step_def split: prod.splits)

lemma sched_run_length [simp]:
  "length (threads (sched_run tr params0 sched sv)) = length (threads sv)"
  by (induction sched arbitrary: sv) simp_all

lemma sched_run_rank:
  "j < length (threads sv) \<Longrightarrow>
     pc_rank (g_pc (threads (sched_run tr params0 sched sv) ! j))
       \<le> pc_rank (g_pc (threads sv ! j)) - count_list sched j"
proof (induction sched arbitrary: sv)
  case Nil
  then show ?case by simp
next
  case (Cons i sched)
  have "j < length (threads (sched_step tr params0 i sv))" using Cons.prems by simp
  from Cons.IH [OF this] Cons.prems
    thread_step_rank [of tr params0 "threads sv ! j" "shared sv"] show ?case
    by (auto simp: sched_step_nth simp del: thread_step.simps)
qed

lemmas demo_serve_defs = demo_op_def demo_ctx_def NewTimestampResponse_def route_request_def
  demo_route_def HandlerFunc_handler_def demo_handler_def

lemma demo_interleaved:
  "sched_run demo_op [] [0, 1, 1, 0, 1, 0, 0, 1] (start_server [''a'', ''b''] 0) =
     \<lparr>threads = [\<lparr>g_pc = PcDone, g_request = ''a#ctx'',
                   g_written = [\<lparr>resp_request = ''a#ctx'', resp_produces = [''application/timestamp-reply''],
                                 resp_route = demo_route, resp_data = RespondResponder 5\<rparr>]\<rparr>,
                 \<lparr>g_pc = PcDone, g_request = ''b#ctx'',
                   g_written = [\<lparr>resp_request = ''b#ctx'', resp_produces = [''application/timestamp-reply''],
                                 resp_route = demo_route, resp_data = RespondResponder 5\<rparr>]\<rparr>],
      shared = 2, handled = [(1, ''b#ctx''), (0, ''a#ctx'')]\<rparr>"
  by (simp add: start_server_def sched_step_def demo_serve_defs respond_def numeral_eq_Suc)


lemma demo_bad_run:
  "handled (sched_run demo_op [] [0, 1, 1, 0, 0, 1, 1, 0] (start_server [''a'', ''bad''] 0)) = [(0, ''a#ctx'')]"
  by (simp add: start_server_def sched_step_def demo_serve_defs respond_def numeral_eq_Suc)

lemma sched_run_fair_rank:
  assumes "\<forall>i < length rs. 4 \<le> count_list sched i" and "i < length rs"
  shows "pc_rank (g_pc (threads (sched_run tr params0 sched (start_server rs w0)) ! i)) = 0"
  using sched_run_rank [of i "start_server rs w0" tr params0 sched] assms
  by (simp add: start_server_def)

lemma sched_run_g_inv:
  "i < length rs \<Longrightarrow> g_inv tr params0 (rs ! i) (threads (sched_run tr params0 sched (start_server rs w0)) ! i)"
  using sched_run_inv [OF start_server_inv, of tr params0 rs w0 sched] by (simp add: server_inv_def)

text \<open>Once no goroutine is before its handler call, the log names exactly the goroutines
  whose request binds.\<close>

lemma server_inv_handled_final:
  assumes "server_inv tr params0 rs w0 sv" and "\<And>i. i < length rs \<Longrightarrow> \<not> pre_handle (g_pc (threads sv ! i))"
  shows "set (map fst (handled sv)) = {i. i < length rs \<and> bound_params (Context tr) params0 (rs ! i) \<noteq> None}"
proof
  show "set (map fst (handled sv)) \<subseteq> {i. i < length rs \<and> bound_params (Context tr) params0 (rs ! i) \<noteq> None}"
    using assms(1) by (fastforce simp: server_inv_def)
  show "{i. i < length rs \<and> bound_params (Context tr) params0 (rs ! i) \<noteq> None} \<subseteq> set (map fst (handled sv))"
    using assms by (auto simp: server_inv_def)
qed

lemma demo_bad_threads:
  "threads (sched_run demo_op [] [0, 1, 1, 0, 0, 1, 1, 0] (start_server [''a'', ''bad''] 0)) ! 1 =
     \<lparr>g_pc = PcDone, g_request = ''bad#ctx'',
      g_written = [\<lparr>resp_request = ''bad#ctx'', resp_produces = [''application/timestamp-reply''],
                    resp_route = demo_route, resp_data = RespondError ''bind error''\<rparr>]\<rparr>"
  by (simp add: start_server_def sched_step_def demo_serve_defs respond_def numeral_eq_Suc)

text \<open>
  The step-wise model decomposes \<open>ServeHTTP\<close> at its calls: a goroutine run alone for
  four calls gives the same panic outcome, request, responses and world as the function.
\<close>

lemma thread_run_ServeHTTP:
  "ServeHTTP tr params0 st =
     (case thread_run 4 tr params0 \<lparr>g_pc = PcStart, g_request = request st, g_written = written st\<rparr> (world st) of
        (g, w) \<Rightarrow> (pc_outcome (g_pc g), \<lparr>request = g_request g, written = g_written g, world = w\<rparr>))"
proof -
  obtain route r where rr: "route_request (Context tr) (request st) = (route, r)" by fastforce
  obtain err P where bd: "BindValidRequest (Context tr) r route params0 = (err, P)" by fastforce
  obtain res w' where hd: "Handle (Handler tr) P (world st) = (res, w')" by fastforce
  have four: "(4::nat) = Suc (Suc (Suc (Suc 0)))" by simp
  show ?thesis
    using rr bd hd unfolding four
    by (cases err; cases route) (simp_all add: ServeHTTP_def respond_def)
qed

section \<open>Properties\<close>

text \<open>
  C13. Under every schedule of the goroutines serving a list of requests, the shared world is
  the handler run sequentially over the parameters of the logged calls, in the order they
  happened; each goroutine calls the handler at most once, and only with the parameters its
  own request binds to; no writer receives more than one response. Concurrent serving is
  serializable at the handler calls.
\<close>

theorem sched_run_serializable:
  "let sv = sched_run tr params0 sched (start_server rs w0) in
     shared sv = run_states (Handle (Handler tr)) (map snd (handled sv)) w0
   \<and> distinct (map fst (handled sv))
   \<and> (\<forall>(i, P) \<in> set (handled sv). i < length rs \<and> bound_params (Context tr) params0 (rs ! i) = Some P)
   \<and> (\<forall>i < length rs. length (g_written (threads sv ! i)) \<le> 1)"
proof -
  let ?sv = "sched_run tr params0 sched (start_server rs w0)"
  have inv: "server_inv tr params0 rs w0 ?sv"
    by (rule sched_run_inv [OF start_server_inv])
  have w: "length (g_written (threads ?sv ! i)) \<le> 1" if "i < length rs" for i
    using inv that g_inv_written [of tr params0 "rs ! i" "threads ?sv ! i"]
    by (simp add: server_inv_def)
  from inv have "shared ?sv = run_states (Handle (Handler tr)) (map snd (handled ?sv)) w0
      \<and> distinct (map fst (handled ?sv))
      \<and> (\<forall>(i, P) \<in> set (handled ?sv). i < length rs \<and> bound_params (Context tr) params0 (rs ! i) = Some P)"
    unfolding server_inv_def by blast
  with w show ?thesis
    by (simp add: Let_def)
qed

text \<open>
  C14. Under a fair schedule, in which every goroutine gets its four calls, every goroutine
  has returned or panicked, and the goroutines that called the handler are exactly those
  whose request binds: with C13, each bound request reaches the handler exactly once.
\<close>

theorem sched_run_fair_completes:
  assumes fair: "\<forall>i < length rs. 4 \<le> count_list sched i"
  shows "let sv = sched_run tr params0 sched (start_server rs w0) in
     (\<forall>i < length rs. g_pc (threads sv ! i) = PcDone \<or> (\<exists>p. g_pc (threads sv ! i) = PcPanicked p))
   \<and> set (map fst (handled sv)) = {i. i < length rs \<and> bound_params (Context tr) params0 (rs ! i) \<noteq> None}"
proof -
  let ?sv = "sched_run tr params0 sched (start_server rs w0)"
  have inv: "server_inv tr params0 rs w0 ?sv"
    by (rule sched_run_inv [OF start_server_inv])
  have fin: "pc_rank (g_pc (threads ?sv ! i)) = 0" if "i < length rs" for i
    using fair that by (rule sched_run_fair_rank)
  have over: "\<not> pre_handle (g_pc (threads ?sv ! i))" if "i < length rs" for i
    using fin [OF that] by (cases "g_pc (threads ?sv ! i)") simp_all
  have "set (map fst (handled ?sv)) = {i. i < length rs \<and> bound_params (Context tr) params0 (rs ! i) \<noteq> None}"
    using inv over by (rule server_inv_handled_final)
  with fin show ?thesis
    by (simp add: Let_def pc_rank_0)
qed

text \<open>
  C17. Under every schedule, each goroutine that has returned from \<open>ServeHTTP\<close> wrote
  exactly one response, and it is its own: for the request its route replaced \<open>*r\<close> by,
  on its route, carrying the binding error exactly when its own binding failed. Each
  goroutine that panicked wrote nothing, and its route was nil. No response crosses
  goroutines, however the calls interleave.
\<close>

theorem sched_run_responses_own:
  "let sv = sched_run tr params0 sched (start_server rs w0) in
   \<forall>i < length rs.
     (g_pc (threads sv ! i) = PcDone \<longrightarrow>
        (\<exists>rt req data. route_request (Context tr) (rs ! i) = (Some rt, req)
           \<and> g_written (threads sv ! i) =
               [\<lparr>resp_request = req, resp_produces = Produces rt, resp_route = rt, resp_data = data\<rparr>]
           \<and> data_matches (Context tr) params0 req (Some rt) data))
   \<and> (\<forall>p. g_pc (threads sv ! i) = PcPanicked p \<longrightarrow>
        g_written (threads sv ! i) = [] \<and> fst (route_request (Context tr) (rs ! i)) = None)"
proof -
  let ?sv = "sched_run tr params0 sched (start_server rs w0)"
  have "g_pc (threads ?sv ! i) = PcDone \<longrightarrow>
          (\<exists>rt req data. route_request (Context tr) (rs ! i) = (Some rt, req)
             \<and> g_written (threads ?sv ! i) =
                 [\<lparr>resp_request = req, resp_produces = Produces rt, resp_route = rt, resp_data = data\<rparr>]
             \<and> data_matches (Context tr) params0 req (Some rt) data)"
    and "\<forall>p. g_pc (threads ?sv ! i) = PcPanicked p \<longrightarrow>
          g_written (threads ?sv ! i) = [] \<and> fst (route_request (Context tr) (rs ! i)) = None"
    if "i < length rs" for i
    using sched_run_g_inv [OF that, of tr params0 sched w0] by (auto simp: g_inv_def)
  then show ?thesis by (simp add: Let_def)
qed

text \<open>
  C18. Under a fair schedule, a goroutine ends returned exactly when its route is not nil,
  and panicked exactly when it is: the nil-route panic of \<open>ServeHTTP\<close> is the only way a
  goroutine of this operation fails to answer.
\<close>

theorem sched_run_fair_panics:
  assumes fair: "\<forall>i < length rs. 4 \<le> count_list sched i"
  shows "let sv = sched_run tr params0 sched (start_server rs w0) in
     \<forall>i < length rs.
       (g_pc (threads sv ! i) = PcDone \<longleftrightarrow> fst (route_request (Context tr) (rs ! i)) \<noteq> None)
     \<and> ((\<exists>p. g_pc (threads sv ! i) = PcPanicked p) \<longleftrightarrow> fst (route_request (Context tr) (rs ! i)) = None)"
proof -
  let ?sv = "sched_run tr params0 sched (start_server rs w0)"
  have "(g_pc (threads ?sv ! i) = PcDone \<longleftrightarrow> fst (route_request (Context tr) (rs ! i)) \<noteq> None)
      \<and> ((\<exists>p. g_pc (threads ?sv ! i) = PcPanicked p) \<longleftrightarrow> fst (route_request (Context tr) (rs ! i)) = None)"
    if i: "i < length rs" for i
  proof -
    have "pc_rank (g_pc (threads ?sv ! i)) = 0" using fair i by (rule sched_run_fair_rank)
    moreover have "g_inv tr params0 (rs ! i) (threads ?sv ! i)" using i by (rule sched_run_g_inv)
    ultimately show ?thesis
      by (cases "g_pc (threads ?sv ! i)") (auto simp: g_inv_def)
  qed
  then show ?thesis by (simp add: Let_def)
qed

theorem sched_run_serializable_witness:
  "handled (sched_run demo_op [] [0, 1, 1, 0, 1, 0, 0, 1] (start_server [''a'', ''b''] 0)) = [(1, ''b#ctx''), (0, ''a#ctx'')]
   \<and> shared (sched_run demo_op [] [0, 1, 1, 0, 1, 0, 0, 1] (start_server [''a'', ''b''] 0))
       = run_states (Handle (Handler demo_op)) [''b#ctx'', ''a#ctx''] 0"
  using sched_run_serializable [of demo_op "[]" "[0, 1, 1, 0, 1, 0, 0, 1]" "[''a'', ''b'']" 0]
  unfolding demo_interleaved by (simp add: Let_def)

theorem sched_run_fair_completes_witness:
  "{i. i < length [''a'', ''bad''] \<and> bound_params (Context demo_op) [] ([''a'', ''bad''] ! i) \<noteq> None} = {0}"
  using sched_run_fair_completes [of "[''a'', ''bad'']" "[0, 1, 1, 0, 0, 1, 1, 0]" demo_op "[]" 0]
  unfolding Let_def demo_bad_run by simp

theorem sched_run_responses_own_witness:
  "route_request (Context demo_op) ''bad'' = (Some demo_route, ''bad#ctx'')
   \<and> data_matches (Context demo_op) [] ''bad#ctx'' (Some demo_route) (RespondError ''bind error'')"
proof -
  have "1 < length [''a'', ''bad'']" by simp
  from sched_run_responses_own [of demo_op "[]" "[0, 1, 1, 0, 0, 1, 1, 0]" "[''a'', ''bad'']" 0,
      unfolded Let_def, rule_format, OF this]
  show ?thesis
    unfolding demo_bad_threads by simp
qed

theorem sched_run_fair_panics_witness:
  "\<exists>p. g_pc (threads (sched_run (NewTimestampResponse demo_ctx_noroute
         (HandlerFunc_handler (TimestampResponseHandlerFunc demo_handler))) [] [0, 0, 0, 0]
         (start_server [''a''] 0)) ! 0) = PcPanicked p"
  using sched_run_fair_panics [of "[''a'']" "[0, 0, 0, 0]"
      "NewTimestampResponse demo_ctx_noroute (HandlerFunc_handler (TimestampResponseHandlerFunc demo_handler))"
      "[]" 0]
  by (simp add: Let_def NewTimestampResponse_def demo_ctx_noroute_def demo_ctx_def route_request_def)

end
