(* ===== verification/Tsa_Concurrent.thy ===== *)
theory Tsa_Concurrent
  imports Serve_Concurrent Tsa_Service
begin

text \<open>
  The deployed operation under concurrent requests with the engine's stages interleaved
  (spec section 5). Each request is a goroutine running \<open>ServeHTTP\<close> call by call
  (\<open>thread_step\<close>); where it calls the handler, the handler runs the lifecycle of
  section 4.6 one stage at a time (\<open>tsr_step\<close>) over the world all requests share. The
  serial allocator's increment and the signer's use of the key are each one atomic
  stage, as section 5 requires; nothing else orders distinct requests. A ghost log records
  each serial allocated and each serial issued, in the order they happen.
\<close>

section \<open>Goroutines with a staged handler\<close>

type_synonym ('req, 'e) tsa_thread =
  "('req, TimestampResponseParams, 'e, TimeStampResp) goroutine \<times> tsr_state option"

text \<open>
  One step of a goroutine: outside the handler call it is the generated code's step; at
  the handler call it starts the engine on the bound body, runs one stage, or, once the
  engine has reached a terminal state, returns its response to \<open>ServeHTTP\<close>.
\<close>

fun tsa_gstep ::
  "tsa_config \<Rightarrow> tsp_codec \<Rightarrow> ('req, TimestampResponseParams, 'e) Context \<Rightarrow> TimestampResponseParams
   \<Rightarrow> ('req, 'e) tsa_thread \<Rightarrow> tsa_world \<Rightarrow> ('req, 'e) tsa_thread \<times> tsa_world" where
  "tsa_gstep cfg cd ctx params0 (g, e) w =
     (case g_pc g of
        PcHandle route P \<Rightarrow>
          (case e of
             None \<Rightarrow> ((g, Some (Received (Request P))), w)
           | Some s \<Rightarrow>
               (case tsr_response s of
                  Some resp \<Rightarrow> ((g\<lparr>g_pc := PcRespond route (RespondResponder resp)\<rparr>, None), w)
                | None \<Rightarrow> (case tsr_step cfg cd s w of (s', w') \<Rightarrow> ((g, Some s'), w'))))
      | _ \<Rightarrow> (case thread_step (tsa_operation ctx cfg cd) params0 g w of (g', w', _) \<Rightarrow> ((g', e), w')))"

text \<open>The serial a stage issues: the token's, when signing succeeds.\<close>

fun issued_by :: "tsr_state option \<Rightarrow> tsr_state option \<Rightarrow> serial list" where
  "issued_by (Some (Signing _ _ _)) (Some (Issued env _)) = [serialNumber (content env)]"
| "issued_by _ _ = []"

record ('req, 'e) tsa_server =
  tthreads :: "('req, 'e) tsa_thread list"
  tworld :: tsa_world
  allocated :: "serial list"
  issued :: "serial list"

definition tsa_sched_step ::
  "tsa_config \<Rightarrow> tsp_codec \<Rightarrow> ('req, TimestampResponseParams, 'e) Context \<Rightarrow> TimestampResponseParams
   \<Rightarrow> nat \<Rightarrow> ('req, 'e) tsa_server \<Rightarrow> ('req, 'e) tsa_server" where
  "tsa_sched_step cfg cd ctx params0 i sv =
     (if i < length (tthreads sv) then
        (case tsa_gstep cfg cd ctx params0 (tthreads sv ! i) (tworld sv) of
           (t', w') \<Rightarrow>
             sv\<lparr>tthreads := (tthreads sv)[i := t'], tworld := w',
                allocated := allocated sv
                  @ (if last_serial (allocator w') = last_serial (allocator (tworld sv)) then []
                     else [last_serial (allocator w')]),
                issued := issued sv @ issued_by (snd (tthreads sv ! i)) (snd t')\<rparr>)
      else sv)"

fun tsa_sched_run ::
  "tsa_config \<Rightarrow> tsp_codec \<Rightarrow> ('req, TimestampResponseParams, 'e) Context \<Rightarrow> TimestampResponseParams
   \<Rightarrow> nat list \<Rightarrow> ('req, 'e) tsa_server \<Rightarrow> ('req, 'e) tsa_server" where
  "tsa_sched_run cfg cd ctx params0 [] sv = sv"
| "tsa_sched_run cfg cd ctx params0 (i # is) sv =
     tsa_sched_run cfg cd ctx params0 is (tsa_sched_step cfg cd ctx params0 i sv)"

definition tsa_start :: "'req list \<Rightarrow> tsa_world \<Rightarrow> ('req, 'e) tsa_server" where
  "tsa_start rs w =
     \<lparr>tthreads = map (\<lambda>r. (\<lparr>g_pc = PcStart, g_request = r, g_written = []\<rparr>, None)) rs, tworld = w,
      allocated = [], issued = []\<rparr>"

text \<open>The serial a goroutine's engine holds between allocation and signing.\<close>

fun eng_held :: "tsr_state option \<Rightarrow> serial list" where
  "eng_held (Some (Signing _ tok _)) = [serialNumber tok]"
| "eng_held _ = []"

definition tsa_inv :: "tsa_world \<Rightarrow> ('req, 'e) tsa_server \<Rightarrow> bool" where
  "tsa_inv w0 sv \<longleftrightarrow>
     sorted_wrt (<) (allocated sv)
   \<and> list_all (\<lambda>s. last_serial (allocator w0) < s \<and> s \<le> last_serial (allocator (tworld sv))) (allocated sv)
   \<and> last_serial (allocator w0) \<le> last_serial (allocator (tworld sv))
   \<and> distinct (issued sv) \<and> set (issued sv) \<subseteq> set (allocated sv)
   \<and> (\<forall>i < length (tthreads sv). \<forall>s \<in> set (eng_held (snd (tthreads sv ! i))).
        s \<in> set (allocated sv) \<and> s \<notin> set (issued sv))
   \<and> (\<forall>i < length (tthreads sv). \<forall>j < length (tthreads sv). i \<noteq> j \<longrightarrow>
        set (eng_held (snd (tthreads sv ! i))) \<inter> set (eng_held (snd (tthreads sv ! j))) = {})"

section \<open>Properties\<close>

lemma thread_step_world:
  "\<not> (\<exists>route P. g_pc g = PcHandle route P) \<Longrightarrow> fst (snd (thread_step tr params0 g w)) = w"
  by (cases "g_pc g") (auto split: prod.splits option.splits)

lemma eng_held_length: "length (eng_held e) \<le> 1"
  by (cases e rule: eng_held.cases) simp_all

text \<open>
  What one goroutine step does to the serials: either the counter is unchanged and the
  held serial stays held, moves to the issued log, or is dropped; or the counter advances
  and the engine, holding nothing before, now holds at most the new serial.
\<close>

lemma tsa_gstep_serials:
  assumes "tsa_gstep cfg cd ctx params0 t w = (t', w')"
  shows "(last_serial (allocator w') = last_serial (allocator w)
          \<and> (eng_held (snd t') @ issued_by (snd t) (snd t') = eng_held (snd t)
             \<or> eng_held (snd t') @ issued_by (snd t) (snd t') = []))
       \<or> (last_serial (allocator w) < last_serial (allocator w') \<and> eng_held (snd t) = []
          \<and> issued_by (snd t) (snd t') = [] \<and> set (eng_held (snd t')) \<subseteq> {last_serial (allocator w')})"
proof -
  obtain g e where t: "t = (g, e)" by fastforce
  show ?thesis
  proof (cases "\<exists>route P. g_pc g = PcHandle route P")
    case False
    then obtain g' h where "thread_step (tsa_operation ctx cfg cd) params0 g w = (g', w, h)"
      using thread_step_world [OF False, of "tsa_operation ctx cfg cd" params0 w]
      by (metis prod.collapse)
    moreover have "tsa_gstep cfg cd ctx params0 (g, e) w
                   = (case thread_step (tsa_operation ctx cfg cd) params0 g w of (g', w', _) \<Rightarrow> ((g', e), w'))"
      using False by (cases "g_pc g") auto
    ultimately show ?thesis using assms t by (cases e rule: eng_held.cases) auto
  next
    case True
    then obtain route P where pc: "g_pc g = PcHandle route P" by blast
    show ?thesis
    proof (cases e)
      case None
      then show ?thesis using assms t pc by auto
    next
      case (Some s)
      show ?thesis
      proof (cases "tsr_response s")
        case (Some resp)
        then have "terminal s" by (cases s) simp_all
        then show ?thesis using assms t pc \<open>e = Some s\<close> Some by (cases s) auto
      next
        case None
        obtain s' w1 where st: "tsr_step cfg cd s w = (s', w1)" by fastforce
        with assms t pc \<open>e = Some s\<close> None have t': "t' = (g, Some s')" and w': "w' = w1" by auto
        have t0: "t = (g, Some s)" using t \<open>e = Some s\<close> by simp
        show ?thesis
        proof (cases s)
          case (Building req)
          show ?thesis
          proof (cases "next_serial (allocator w)")
            case (Inl x)
            then show ?thesis using st Building t0 t' w' by auto
          next
            case (Inr p)
            obtain sn a' where p: "p = (sn, a')" by fastforce
            have ns0: "last_serial (allocator w) \<noteq> - 1 \<and> sn = last_serial (allocator w) + 1
                       \<and> a' = (allocator w)\<lparr>last_serial := sn\<rparr>"
              using next_serial_Inr [THEN iffD1, OF Inr [unfolded p]] .
            then have ns: "last_serial (allocator w) < sn" "a' = (allocator w)\<lparr>last_serial := sn\<rparr>"
              using word_not_max_less_succ by auto
            show ?thesis
            proof (cases "build_token cfg req sn (clock w)")
              case (Inl x)
              then show ?thesis using st Building Inr p ns t0 t' w' by auto
            next
              case (Inr q)
              obtain tok oc where q: "q = (tok, oc)" by fastforce
              have "serialNumber tok = sn" using build_token_Inr [OF Inr [unfolded q]] by simp
              then show ?thesis using st Building \<open>next_serial (allocator w) = Inr p\<close> p Inr q ns t0 t' w'
                by auto
            qed
          qed
        next
          case (Signing req tok oc)
          show ?thesis
          proof (cases "sign_token cfg (encode_tst cd) (identity w) tok (certReq req)")
            case (Inl x)
            then show ?thesis using st Signing t0 t' w' by auto
          next
            case (Inr env)
            then show ?thesis using st Signing t0 t' w' sign_token_Inr [OF Inr] by auto
          qed
        qed (use st t0 t' w' in \<open>auto split: option.splits sum.splits\<close>)
      qed
    qed
  qed
qed

lemma held_step_split:
  assumes "h' @ ib = h \<or> h' @ ib = []" and "length h \<le> 1"
  shows "set h' \<subseteq> set h \<and> set ib \<subseteq> set h \<and> set h' \<inter> set ib = {} \<and> distinct ib"
  using assms by (cases h'; cases ib) auto

lemma tsa_sched_step_inv:
  assumes inv: "tsa_inv w0 sv"
  shows "tsa_inv w0 (tsa_sched_step cfg cd ctx params0 i sv)"
proof (cases "i < length (tthreads sv)")
  case False
  then show ?thesis using inv by (simp add: tsa_sched_step_def)
next
  case True
  define ts where "ts = tthreads sv"
  define w where "w = tworld sv"
  obtain t' w' where st: "tsa_gstep cfg cd ctx params0 (ts ! i) w = (t', w')" by fastforce
  define H where "H = (\<lambda>k. eng_held (snd (ts ! k)))"
  define ib where "ib = issued_by (snd (ts ! i)) (snd t')"
  define L where "L = last_serial (allocator w)"
  define L' where "L' = last_serial (allocator w')"
  define L0 where "L0 = last_serial (allocator w0)"
  have I: "sorted_wrt (<) (allocated sv)" "list_all (\<lambda>s. L0 < s \<and> s \<le> L) (allocated sv)" "L0 \<le> L"
    "distinct (issued sv)" "set (issued sv) \<subseteq> set (allocated sv)"
    "\<And>k s. k < length ts \<Longrightarrow> s \<in> set (H k) \<Longrightarrow> s \<in> set (allocated sv) \<and> s \<notin> set (issued sv)"
    "\<And>k j. k < length ts \<Longrightarrow> j < length ts \<Longrightarrow> k \<noteq> j \<Longrightarrow> set (H k) \<inter> set (H j) = {}"
    using inv by (simp_all add: tsa_inv_def ts_def w_def H_def L_def L0_def)
  have i: "i < length ts" using True by (simp add: ts_def)
  have res: "tsa_sched_step cfg cd ctx params0 i sv =
      sv\<lparr>tthreads := ts[i := t'], tworld := w',
         allocated := allocated sv @ (if L' = L then [] else [L']), issued := issued sv @ ib\<rparr>"
    using True st by (simp add: tsa_sched_step_def ts_def w_def L_def L'_def ib_def)
  have Hu: "\<And>k. k < length ts \<Longrightarrow> eng_held (snd (ts[i := t'] ! k)) = (if k = i then eng_held (snd t') else H k)"
    using i by (simp add: H_def nth_list_update)
  note cs = tsa_gstep_serials [OF st, folded L_def L'_def ib_def H_def]
  show ?thesis
  proof (cases "L' = L")
    case True
    then have "eng_held (snd t') @ ib = H i \<or> eng_held (snd t') @ ib = []"
      using cs by (auto simp: H_def)
    moreover have "length (H i) \<le> 1" unfolding H_def by (rule eng_held_length)
    ultimately have "set (eng_held (snd t')) \<subseteq> set (H i) \<and> set ib \<subseteq> set (H i)
      \<and> set (eng_held (snd t')) \<inter> set ib = {} \<and> distinct ib"
      by (rule held_step_split)
    then have sp:
      "set (eng_held (snd t')) \<subseteq> set (H i)" "set ib \<subseteq> set (H i)"
      "set (eng_held (snd t')) \<inter> set ib = {}" "distinct ib"
      by simp_all
    have d: "distinct (issued sv @ ib)" using sp(2,4) I(4) I(6) [OF i] by auto
    have h: "\<forall>k < length ts. \<forall>s \<in> set (eng_held (snd (ts[i := t'] ! k))).
               s \<in> set (allocated sv) \<and> s \<notin> set (issued sv @ ib)"
    proof (intro allI impI ballI)
      fix k s assume k: "k < length ts" and s: "s \<in> set (eng_held (snd (ts[i := t'] ! k)))"
      show "s \<in> set (allocated sv) \<and> s \<notin> set (issued sv @ ib)"
      proof (cases "k = i")
        case True
        with s Hu [OF k] sp have "s \<in> set (H i)" "s \<notin> set ib" by auto
        with I(6) [OF i] show ?thesis by simp
      next
        case False
        with s Hu [OF k] have "s \<in> set (H k)" by simp
        moreover have "s \<notin> set ib" using sp(2) I(7) [OF k i False] \<open>s \<in> set (H k)\<close> by auto
        ultimately show ?thesis using I(6) [OF k] by simp
      qed
    qed
    have p: "\<forall>k < length ts. \<forall>j < length ts. k \<noteq> j \<longrightarrow>
               set (eng_held (snd (ts[i := t'] ! k))) \<inter> set (eng_held (snd (ts[i := t'] ! j))) = {}"
      using I(7) sp(1) Hu by (metis (no_types, lifting) disjoint_iff subsetD)
    show ?thesis
      unfolding res using I(1-5) True d h p sp(2) I(6) [OF i]
      by (auto simp: tsa_inv_def L_def L'_def L0_def w_def ts_def)
  next
    case False
    with cs have lt: "L < L'" and h0: "H i = []" and ib: "ib = []" and hs: "set (eng_held (snd t')) \<subseteq> {L'}"
      by (auto simp: H_def)
    have below: "\<And>s. s \<in> set (allocated sv) \<Longrightarrow> s < L'"
      using I(2) lt by (auto simp: list_all_iff)
    have h: "\<forall>k < length ts. \<forall>s \<in> set (eng_held (snd (ts[i := t'] ! k))).
               s \<in> set (allocated sv @ [L']) \<and> s \<notin> set (issued sv @ ib)"
    proof (intro allI impI ballI)
      fix k s assume k: "k < length ts" and s: "s \<in> set (eng_held (snd (ts[i := t'] ! k)))"
      show "s \<in> set (allocated sv @ [L']) \<and> s \<notin> set (issued sv @ ib)"
      proof (cases "k = i")
        case True
        with s Hu [OF k] hs have "s = L'" by auto
        with I(5) below ib show ?thesis by auto
      next
        case False
        with s Hu [OF k] I(6) [OF k] ib show ?thesis by simp
      qed
    qed
    have p: "\<forall>k < length ts. \<forall>j < length ts. k \<noteq> j \<longrightarrow>
               set (eng_held (snd (ts[i := t'] ! k))) \<inter> set (eng_held (snd (ts[i := t'] ! j))) = {}"
    proof (intro allI impI)
      fix k j assume k: "k < length ts" and j: "j < length ts" and kj: "k \<noteq> j"
      have fresh: "\<And>m. m < length ts \<Longrightarrow> m \<noteq> i \<Longrightarrow> L' \<notin> set (H m)"
        using I(6) below by blast
      show "set (eng_held (snd (ts[i := t'] ! k))) \<inter> set (eng_held (snd (ts[i := t'] ! j))) = {}"
        using Hu [OF k] Hu [OF j] I(7) [OF k j kj] hs fresh [OF k] fresh [OF j] kj by auto
    qed
    have srt: "sorted_wrt (<) (allocated sv @ [L'])" using I(1) below by (simp add: sorted_wrt_append)
    have la: "list_all (\<lambda>s. L0 < s \<and> s \<le> L') (allocated sv @ [L'])"
      using I(2,3) lt by (auto simp: list_all_iff)
    show ?thesis
      unfolding res using False srt la I(3,4,5) lt h p ib
      by (auto simp: tsa_inv_def L_def L'_def L0_def w_def ts_def)
  qed
qed

lemma tsa_start_inv: "tsa_inv w0 (tsa_start rs w0)"
  by (simp add: tsa_inv_def tsa_start_def)

lemma tsa_sched_run_inv: "tsa_inv w0 sv \<Longrightarrow> tsa_inv w0 (tsa_sched_run cfg cd ctx params0 sched sv)"
  by (induction sched arbitrary: sv) (simp_all add: tsa_sched_step_inv)

text \<open>
  Issuance order is not allocation order: two requests for the same digest, the first
  allocated serial 42 and the second 43, but the second signed first, so the tokens are
  issued with serials 43 then 42.
\<close>

lemma tsa_issue_order_example:
  "let sv = tsa_sched_run demo_cfg demo_codec demo_tsa_ctx \<lparr>Request = []\<rparr>
              [0, 0, 0, 0, 0, 0, 1, 1, 1, 1, 1, 1, 1, 0, 0, 0, 1, 1] (tsa_start [[1], [1]] demo_world)
   in allocated sv = [42, 43] \<and> issued sv = [43, 42]"
  by (simp add: tsa_sched_step_def tsa_start_def demo_defs engine_defs NewTimestampResponse_def
      route_request_def HandlerFunc_handler_def respond_def tsa_operation_def)

text \<open>
  C20. However the stages of concurrent requests interleave, the serials allocated are
  strictly increasing in allocation order and all above the counter's initial value, no
  serial is issued twice, and every issued serial was allocated: the allocator's atomic
  increment is enough for uniqueness without ordering the rest of the pipeline.
\<close>

theorem tsa_concurrent_serials_unique:
  "let sv = tsa_sched_run cfg cd ctx params0 sched (tsa_start rs w0) in
     sorted_wrt (<) (allocated sv) \<and> list_all (\<lambda>s. last_serial (allocator w0) < s) (allocated sv)
     \<and> distinct (issued sv) \<and> set (issued sv) \<subseteq> set (allocated sv)"
proof -
  have "tsa_inv w0 (tsa_sched_run cfg cd ctx params0 sched (tsa_start rs w0))"
    by (rule tsa_sched_run_inv [OF tsa_start_inv])
  then show ?thesis by (auto simp: tsa_inv_def Let_def list_all_iff)
qed

end
