(* ===== verification/Tsa_Clock.thy ===== *)
theory Tsa_Clock
  imports Tsa_Concurrent
begin

text \<open>
  The clock source of spec section 6 under concurrent requests. The clock is a
  collaborator whose reading \<open>now()\<close> never goes backward (section 5); between any two
  stages of any requests it may advance. The Token Builder reads it in the \<open>Building\<close>
  stage, where the serial is allocated, so a token's \<open>genTime\<close> and serial are fixed
  together; the Signer runs later, in a stage of its own. Ghost logs record the
  \<open>(genTime, serial)\<close> stamp of each token when it is built and when it is issued.
\<close>

section \<open>Clock ticks and stamped tokens\<close>

datatype tsa_event = StepThread nat | Tick nat

text \<open>The clock source advancing by \<open>d\<close> seconds: it never goes backward.\<close>

definition clock_tick :: "nat \<Rightarrow> tsa_world \<Rightarrow> tsa_world" where
  "clock_tick d w = w\<lparr>clock := clock w + d\<rparr>"

fun built_stamp :: "tsr_state option \<Rightarrow> tsr_state option \<Rightarrow> (time \<times> serial) list" where
  "built_stamp (Some (Building _)) (Some (Signing _ tok _)) = [(genTime tok, serialNumber tok)]"
| "built_stamp _ _ = []"

fun issued_stamp :: "tsr_state option \<Rightarrow> tsr_state option \<Rightarrow> (time \<times> serial) list" where
  "issued_stamp (Some (Signing _ _ _)) (Some (Issued env _)) =
     [(genTime (content env), serialNumber (content env))]"
| "issued_stamp _ _ = []"

fun held_stamp :: "tsr_state option \<Rightarrow> (time \<times> serial) list" where
  "held_stamp (Some (Signing _ tok _)) = [(genTime tok, serialNumber tok)]"
| "held_stamp _ = []"

record ('req, 'e) tsa_clocked =
  csrv :: "('req, 'e) tsa_server"
  built :: "(time \<times> serial) list"
  issued_at :: "(time \<times> serial) list"

fun tsa_clk_step ::
  "tsa_config \<Rightarrow> tsp_codec \<Rightarrow> ('req, TimestampResponseParams, 'e) Context \<Rightarrow> TimestampResponseParams
   \<Rightarrow> tsa_event \<Rightarrow> ('req, 'e) tsa_clocked \<Rightarrow> ('req, 'e) tsa_clocked" where
  "tsa_clk_step cfg cd ctx params0 (Tick d) c =
     c\<lparr>csrv := (csrv c)\<lparr>tworld := clock_tick d (tworld (csrv c))\<rparr>\<rparr>"
| "tsa_clk_step cfg cd ctx params0 (StepThread i) c =
     (let sv = csrv c; sv' = tsa_sched_step cfg cd ctx params0 i sv in
      if i < length (tthreads sv) then
        c\<lparr>csrv := sv',
          built := built c @ built_stamp (snd (tthreads sv ! i)) (snd (tthreads sv' ! i)),
          issued_at := issued_at c @ issued_stamp (snd (tthreads sv ! i)) (snd (tthreads sv' ! i))\<rparr>
      else c)"

fun tsa_clk_run ::
  "tsa_config \<Rightarrow> tsp_codec \<Rightarrow> ('req, TimestampResponseParams, 'e) Context \<Rightarrow> TimestampResponseParams
   \<Rightarrow> tsa_event list \<Rightarrow> ('req, 'e) tsa_clocked \<Rightarrow> ('req, 'e) tsa_clocked" where
  "tsa_clk_run cfg cd ctx params0 [] c = c"
| "tsa_clk_run cfg cd ctx params0 (ev # evs) c =
     tsa_clk_run cfg cd ctx params0 evs (tsa_clk_step cfg cd ctx params0 ev c)"

definition tsa_clk_start :: "'req list \<Rightarrow> tsa_world \<Rightarrow> ('req, 'e) tsa_clocked" where
  "tsa_clk_start rs w = \<lparr>csrv = tsa_start rs w, built = [], issued_at = []\<rparr>"

text \<open>Stamps in the order of the ordering field: time never decreasing, serial increasing.\<close>

definition stamp_before :: "time \<times> serial \<Rightarrow> time \<times> serial \<Rightarrow> bool" where
  "stamp_before a b \<longleftrightarrow> fst a \<le> fst b \<and> snd a < snd b"

definition clk_inv :: "tsa_world \<Rightarrow> ('req, 'e) tsa_clocked \<Rightarrow> bool" where
  "clk_inv w0 c \<longleftrightarrow>
     tsa_inv w0 (csrv c) \<and> clock w0 \<le> clock (tworld (csrv c))
   \<and> sorted_wrt stamp_before (built c)
   \<and> list_all (\<lambda>b. clock w0 \<le> fst b \<and> fst b \<le> clock (tworld (csrv c)) \<and> snd b \<in> set (allocated (csrv c)))
       (built c)
   \<and> (\<forall>i < length (tthreads (csrv c)). set (held_stamp (snd (tthreads (csrv c) ! i))) \<subseteq> set (built c))
   \<and> set (issued_at c) \<subseteq> set (built c) \<and> map snd (issued_at c) = issued (csrv c)"

section \<open>One stage\<close>

lemma tsr_step_stamps:
  assumes "tsr_step cfg cd s w = (s', w')"
  shows "clock w' = clock w
       \<and> set (held_stamp (Some s')) \<union> set (issued_stamp (Some s) (Some s'))
           \<subseteq> set (held_stamp (Some s)) \<union> set (built_stamp (Some s) (Some s'))
       \<and> set (built_stamp (Some s) (Some s')) \<subseteq> {(clock w, last_serial (allocator w'))}"
proof (cases s)
  case (Building req)
  show ?thesis
  proof (cases "next_serial (allocator w)")
    case (Inr p)
    obtain sn a' where p: "p = (sn, a')" by fastforce
    have a': "a' = (allocator w)\<lparr>last_serial := sn\<rparr>"
      using next_serial_Inr [THEN iffD1, OF Inr [unfolded p]] by simp
    show ?thesis
    proof (cases "build_token cfg req sn (clock w)")
      case (Inr q)
      obtain tok oc where q: "q = (tok, oc)" by fastforce
      have "serialNumber tok = sn \<and> genTime tok = clock w" using build_token_Inr [OF Inr [unfolded q]] by simp
      then show ?thesis using assms Building \<open>next_serial (allocator w) = Inr p\<close> p Inr q a' by auto
    qed (use assms Building Inr p in auto)
  qed (use assms Building in auto)
next
  case (Signing req tok oc)
  show ?thesis
  proof (cases "sign_token cfg (encode_tst cd) (identity w) tok (certReq req)")
    case (Inr env)
    then show ?thesis using assms Signing sign_token_Inr [OF Inr] by auto
  qed (use assms Signing in auto)
qed (use assms in \<open>auto split: option.splits sum.splits\<close>)

lemma stamps_same [simp]: "built_stamp e e = []" "issued_stamp e e = []"
  by (cases e rule: held_stamp.cases; simp)+

lemma issued_stamp_serials [simp]: "map snd (issued_stamp a b) = issued_by a b"
  by (cases "(a, b)" rule: issued_stamp.cases) simp_all

lemma built_stamp_held: "built_stamp a b \<noteq> [] \<Longrightarrow> eng_held a = [] \<and> eng_held b \<noteq> []"
  by (cases "(a, b)" rule: built_stamp.cases) simp_all

text \<open>What a goroutine step does to its engine: nothing, start it, hand its response
  back to \<open>ServeHTTP\<close>, or run one stage on the world.\<close>

lemma tsa_gstep_engine:
  assumes "tsa_gstep cfg cd ctx params0 t w = (t', w')"
  obtains (same) "snd t' = snd t" "w' = w"
  | (start) bs where "snd t = None" "snd t' = Some (Received bs)" "w' = w"
  | (finish) s where "snd t = Some s" "snd t' = None" "w' = w"
  | (stage) s s' where "snd t = Some s" "snd t' = Some s'" "tsr_step cfg cd s w = (s', w')"
proof -
  obtain g e where t: "t = (g, e)" by fastforce
  show ?thesis
  proof (cases "\<exists>route P. g_pc g = PcHandle route P")
    case False
    then obtain g' h where "thread_step (tsa_operation ctx cfg cd) params0 g w = (g', w, h)"
      using thread_step_world [OF False, of "tsa_operation ctx cfg cd" params0 w]
      by (metis prod.collapse)
    moreover have "tsa_gstep cfg cd ctx params0 (g, e) w
                   = (case thread_step (tsa_operation ctx cfg cd) params0 g w of (g', w', _) \<Rightarrow> ((g', e), w'))"
      using False by (cases "g_pc g") auto
    ultimately show ?thesis using assms t same by auto
  next
    case True
    then obtain route P where pc: "g_pc g = PcHandle route P" by blast
    show ?thesis
    proof (cases e)
      case None
      then show ?thesis using assms t pc start by auto
    next
      case (Some s)
      then show ?thesis using assms t pc finish stage
        by (auto split: option.splits prod.splits)
    qed
  qed
qed

lemma tsa_gstep_stamps:
  assumes "tsa_gstep cfg cd ctx params0 t w = (t', w')"
  shows "clock w' = clock w
       \<and> set (held_stamp (snd t')) \<union> set (issued_stamp (snd t) (snd t'))
           \<subseteq> set (held_stamp (snd t)) \<union> set (built_stamp (snd t) (snd t'))
       \<and> set (built_stamp (snd t) (snd t')) \<subseteq> {(clock w, last_serial (allocator w'))}"
  using assms
proof (cases rule: tsa_gstep_engine)
  case (stage s s')
  then show ?thesis using tsr_step_stamps [OF stage(3)] by simp
qed simp_all

section \<open>The invariant of the clocked server\<close>

lemma clk_tick_inv: "clk_inv w0 c \<Longrightarrow> clk_inv w0 (tsa_clk_step cfg cd ctx params0 (Tick d) c)"
  by (auto simp: clk_inv_def clock_tick_def tsa_inv_def list_all_iff)

lemma clk_thread_inv:
  assumes inv: "clk_inv w0 c"
  shows "clk_inv w0 (tsa_clk_step cfg cd ctx params0 (StepThread i) c)"
proof (cases "i < length (tthreads (csrv c))")
  case False
  then show ?thesis using inv by (simp add: Let_def)
next
  case True
  define sv where "sv = csrv c"
  define ts where "ts = tthreads sv"
  define w where "w = tworld sv"
  obtain t' w' where st: "tsa_gstep cfg cd ctx params0 (ts ! i) w = (t', w')" by fastforce
  define bs where "bs = built_stamp (snd (ts ! i)) (snd t')"
  define iss where "iss = issued_stamp (snd (ts ! i)) (snd t')"
  define L where "L = last_serial (allocator w)"
  define L' where "L' = last_serial (allocator w')"
  have i: "i < length ts" using True by (simp add: ts_def sv_def)
  have sv': "tsa_sched_step cfg cd ctx params0 i sv =
      sv\<lparr>tthreads := ts[i := t'], tworld := w',
         allocated := allocated sv @ (if L' = L then [] else [L']),
         issued := issued sv @ issued_by (snd (ts ! i)) (snd t')\<rparr>"
    using i st by (simp add: tsa_sched_step_def ts_def w_def L_def L'_def)
  have th: "tthreads (tsa_sched_step cfg cd ctx params0 i sv) ! i = t'" using i by (simp add: sv')
  have res: "tsa_clk_step cfg cd ctx params0 (StepThread i) c =
      c\<lparr>csrv := tsa_sched_step cfg cd ctx params0 i sv, built := built c @ bs, issued_at := issued_at c @ iss\<rparr>"
    using i th by (simp add: Let_def sv_def ts_def bs_def iss_def)
  have I: "tsa_inv w0 sv" "clock w0 \<le> clock w" "sorted_wrt stamp_before (built c)"
    "\<And>b. b \<in> set (built c) \<Longrightarrow> clock w0 \<le> fst b \<and> fst b \<le> clock w \<and> snd b \<in> set (allocated sv)"
    "\<And>k. k < length ts \<Longrightarrow> set (held_stamp (snd (ts ! k))) \<subseteq> set (built c)"
    "set (issued_at c) \<subseteq> set (built c)" "map snd (issued_at c) = issued sv"
    using inv by (auto simp: clk_inv_def sv_def ts_def w_def list_all_iff)
  note gs = tsa_gstep_stamps [OF st, folded bs_def iss_def]
  have tinv: "tsa_inv w0 (tsa_sched_step cfg cd ctx params0 i sv)" using I(1) by (rule tsa_sched_step_inv)
  have below: "\<And>b. b \<in> set (built c) \<Longrightarrow> snd b \<le> L"
    using I(1,4) by (fastforce simp: tsa_inv_def list_all_iff L_def w_def)
  have new: "\<And>b. b \<in> set bs \<Longrightarrow> b = (clock w, L') \<and> L < L'"
  proof -
    fix b assume b: "b \<in> set bs"
    then have "bs \<noteq> []" by auto
    then have "eng_held (snd (ts ! i)) = [] \<and> eng_held (snd t') \<noteq> []"
      unfolding bs_def by (rule built_stamp_held)
    then have "L < L'"
      using tsa_gstep_serials [OF st] by (auto simp: L_def L'_def)
    with b gs show "b = (clock w, L') \<and> L < L'" by (auto simp: L'_def)
  qed
  have srt: "sorted_wrt stamp_before (built c @ bs)"
  proof -
    have "length bs \<le> 1" by (simp add: bs_def) (cases "(snd (ts ! i), snd t')" rule: built_stamp.cases; simp)
    then have "sorted_wrt stamp_before bs" by (cases bs) auto
    moreover have "stamp_before a b" if "a \<in> set (built c)" "b \<in> set bs" for a b
      using I(4) [OF that(1)] below [OF that(1)] new [OF that(2)] by (auto simp: stamp_before_def)
    ultimately show ?thesis using I(3) by (auto simp: sorted_wrt_append)
  qed
  have alloc: "\<And>b. b \<in> set bs \<Longrightarrow> snd b \<in> set (allocated (tsa_sched_step cfg cd ctx params0 i sv))"
    using new by (force simp: sv')
  have held: "\<forall>k < length (ts[i := t']). set (held_stamp (snd (ts[i := t'] ! k))) \<subseteq> set (built c @ bs)"
  proof (intro allI impI)
    fix k assume "k < length (ts[i := t'])"
    then have k: "k < length ts" by simp
    show "set (held_stamp (snd (ts[i := t'] ! k))) \<subseteq> set (built c @ bs)"
    proof (cases "k = i")
      case True
      then show ?thesis using I(5) [OF i] gs i by auto
    next
      case False
      then show ?thesis using I(5) [OF k] by auto
    qed
  qed
  have isd: "set (issued_at c @ iss) \<subseteq> set (built c @ bs)" using I(5) [OF i] I(6) gs by auto
  have cw: "clock w' = clock w" using gs by simp
  have lst: "\<forall>b \<in> set (built c @ bs). clock w0 \<le> fst b \<and> fst b \<le> clock w'
      \<and> snd b \<in> set (allocated (tsa_sched_step cfg cd ctx params0 i sv))"
  proof
    fix b assume "b \<in> set (built c @ bs)"
    then consider "b \<in> set (built c)" | "b \<in> set bs" by auto
    then show "clock w0 \<le> fst b \<and> fst b \<le> clock w' \<and> snd b \<in> set (allocated (tsa_sched_step cfg cd ctx params0 i sv))"
    proof cases
      case 1
      then show ?thesis using I(4) [OF 1] cw by (simp add: sv')
    next
      case 2
      then show ?thesis using new [OF 2] alloc [OF 2] I(2) cw by simp
    qed
  qed
  have iss': "map snd (issued_at c @ iss) = issued (tsa_sched_step cfg cd ctx params0 i sv)"
    using I(7) by (simp add: sv' iss_def)
  show ?thesis
    unfolding res clk_inv_def list_all_iff
    using tinv I(2) cw srt lst held isd iss'
    by (simp add: sv' w_def ts_def)
qed

lemma clk_step_inv: "clk_inv w0 c \<Longrightarrow> clk_inv w0 (tsa_clk_step cfg cd ctx params0 ev c)"
  by (cases ev) (simp_all only: clk_tick_inv clk_thread_inv)

lemma clk_run_inv: "clk_inv w0 c \<Longrightarrow> clk_inv w0 (tsa_clk_run cfg cd ctx params0 evs c)"
  by (induction evs arbitrary: c) (simp_all add: clk_step_inv del: tsa_clk_step.simps)

lemma clk_start_inv: "clk_inv w0 (tsa_clk_start rs w0)"
  by (simp add: clk_inv_def tsa_clk_start_def tsa_start_inv) (simp add: tsa_start_def)

section \<open>The signing capability\<close>








section \<open>Properties\<close>

text \<open>
  Issuance order is not genTime order: the first request is built at the clock's reading
  1700000000 with serial 42, the clock advances a second, the second request is built with
  serial 43 and signed first; the token issued second carries the earlier genTime.
\<close>

lemma tsa_gentime_order_example:
  "let c = tsa_clk_run demo_cfg demo_codec demo_tsa_ctx \<lparr>Request = []\<rparr>
             (map StepThread [0, 0, 0, 0, 0, 0] @ [Tick 1]
              @ map StepThread [1, 1, 1, 1, 1, 1, 1, 0, 0, 0, 1, 1])
             (tsa_clk_start [[1], [1]] demo_world)
   in built c = [(1700000000, 42), (1700000001, 43)]
    \<and> issued_at c = [(1700000001, 43), (1700000000, 42)]"
  by (simp add: tsa_clk_start_def clock_tick_def tsa_sched_step_def tsa_start_def demo_defs engine_defs
      NewTimestampResponse_def route_request_def HandlerFunc_handler_def respond_def tsa_operation_def)

text \<open>
  C23. However the stages of concurrent requests interleave and however the clock advances
  between them, the tokens built are stamped in build order with a genTime that never
  decreases and a serial that increases, so tokens with equal genTime are ordered by
  serial, as the ordering field promises; every genTime lies between the clock's initial
  and current readings; and every token issued is one of those built, none twice.
\<close>

theorem tsa_clock_stamps_ordered:
  "let c = tsa_clk_run cfg cd ctx params0 evs (tsa_clk_start rs w0) in
     sorted_wrt stamp_before (built c)
   \<and> list_all (\<lambda>b. clock w0 \<le> fst b \<and> fst b \<le> clock (tworld (csrv c))) (built c)
   \<and> distinct (issued_at c) \<and> set (issued_at c) \<subseteq> set (built c)"
proof -
  let ?c = "tsa_clk_run cfg cd ctx params0 evs (tsa_clk_start rs w0)"
  have inv: "clk_inv w0 ?c" by (rule clk_run_inv [OF clk_start_inv])
  then have "distinct (map snd (issued_at ?c))" by (simp add: clk_inv_def tsa_inv_def)
  then have "distinct (issued_at ?c)" by (rule distinct_map [THEN iffD1, THEN conjunct1])
  with inv show ?thesis by (auto simp: clk_inv_def Let_def list_all_iff)
qed


end
