(* ===== verification/Serve_Dispatch.thy ===== *)
theory Serve_Dispatch
  imports Serve_Concurrent
begin

text \<open>
  The HTTP server as it dispatches to the operation: \<open>net/http\<close> accepts a connection,
  reads a request and starts a goroutine that calls the handler's \<open>ServeHTTP(rw, r)\<close>
  (line 58) with a fresh response writer; meanwhile the goroutines already started make
  their calls. Requests therefore arrive while others are in flight, which the fixed
  request list of \<open>start_server\<close> does not show. An event is either the arrival of a
  request or one call of a running goroutine; the states the server can reach are an
  inductive predicate, whose rule induction carries the invariants of
  \<^theory_text>\<open>Serve_Concurrent\<close> to every reachable state, and the same reachable states are
  the runs of an executable event list.

  Two invariants are shown. \<open>wf_server\<close> is the typing of a server state, independent of
  what the routing and binding functions return: each writer holds at most one
  \<open>Respond\<close> call, it holds one exactly when its goroutine returned, that call carries its
  goroutine's request and its route's \<open>Produces\<close>, and the log of handler calls names
  each started goroutine at most once and none before its handler call. \<open>server_inv\<close>
  (of \<^theory_text>\<open>Serve_Concurrent\<close>) relates the state to the requests accepted so far.
\<close>

section \<open>Events of the server\<close>

datatype 'req http_event = Accept 'req | Run nat

text \<open>A new connection's goroutine: at the start of \<open>ServeHTTP\<close>, with the request read
  from the connection and a fresh writer.\<close>

definition accept_conn ::
  "'req \<Rightarrow> ('req, 'p, 'e, 'res, 's) server \<Rightarrow> ('req, 'p, 'e, 'res, 's) server" where
  "accept_conn r sv = sv\<lparr>threads := threads sv @ [\<lparr>g_pc = PcStart, g_request = r, g_written = []\<rparr>]\<rparr>"

fun dispatch ::
  "('req, 'p, 'e, 's, 'res) TimestampResponse \<Rightarrow> 'p \<Rightarrow> 'req http_event
   \<Rightarrow> ('req, 'p, 'e, 'res, 's) server \<Rightarrow> ('req, 'p, 'e, 'res, 's) server" where
  "dispatch tr params0 (Accept r) sv = accept_conn r sv"
| "dispatch tr params0 (Run i) sv = sched_step tr params0 i sv"

fun dispatch_run ::
  "('req, 'p, 'e, 's, 'res) TimestampResponse \<Rightarrow> 'p \<Rightarrow> 'req http_event list
   \<Rightarrow> ('req, 'p, 'e, 'res, 's) server \<Rightarrow> ('req, 'p, 'e, 'res, 's) server" where
  "dispatch_run tr params0 [] sv = sv"
| "dispatch_run tr params0 (ev # evs) sv = dispatch_run tr params0 evs (dispatch tr params0 ev sv)"

fun accepted :: "'req http_event list \<Rightarrow> 'req list" where
  "accepted [] = []"
| "accepted (Accept r # evs) = r # accepted evs"
| "accepted (Run _ # evs) = accepted evs"

text \<open>The reachable states, with the requests accepted on the way, in arrival order.\<close>

inductive dispatch_reach ::
  "('req, 'p, 'e, 's, 'res) TimestampResponse \<Rightarrow> 'p \<Rightarrow> 's \<Rightarrow> 'req list
   \<Rightarrow> ('req, 'p, 'e, 'res, 's) server \<Rightarrow> bool"
  for tr params0 w0 where
  reach_init: "dispatch_reach tr params0 w0 [] (start_server [] w0)"
| reach_accept: "dispatch_reach tr params0 w0 rs sv \<Longrightarrow>
    dispatch_reach tr params0 w0 (rs @ [r]) (dispatch tr params0 (Accept r) sv)"
| reach_run: "dispatch_reach tr params0 w0 rs sv \<Longrightarrow> i < length (threads sv) \<Longrightarrow>
    dispatch_reach tr params0 w0 rs (dispatch tr params0 (Run i) sv)"

section \<open>Typing of a server state\<close>

fun wf_written :: "('p, 'e, 'res) serve_pc \<Rightarrow> 'req \<Rightarrow> ('req, 'e, 'res) respond_call list \<Rightarrow> bool" where
  "wf_written PcDone r [c] \<longleftrightarrow> resp_request c = r \<and> resp_produces c = Produces (resp_route c)"
| "wf_written PcDone r _ \<longleftrightarrow> False"
| "wf_written _ r cs \<longleftrightarrow> cs = []"

definition wf_server :: "('req, 'p, 'e, 'res, 's) server \<Rightarrow> bool" where
  "wf_server sv \<longleftrightarrow>
     distinct (map fst (handled sv))
   \<and> list_all (\<lambda>i. i < length (threads sv)) (map fst (handled sv))
   \<and> (\<forall>i < length (threads sv).
        wf_written (g_pc (threads sv ! i)) (g_request (threads sv ! i)) (g_written (threads sv ! i))
        \<and> (pre_handle (g_pc (threads sv ! i)) \<longrightarrow> i \<notin> set (map fst (handled sv))))"

section \<open>Preservation\<close>

lemma thread_step_wf:
  assumes wf: "wf_written (g_pc g) (g_request g) (g_written g)"
    and st: "thread_step tr params0 g w = (g', w', h)"
  shows "wf_written (g_pc g') (g_request g') (g_written g')
       \<and> (case h of None \<Rightarrow> pre_handle (g_pc g') \<longrightarrow> pre_handle (g_pc g)
          | Some _ \<Rightarrow> pre_handle (g_pc g) \<and> \<not> pre_handle (g_pc g'))"
proof (cases "g_pc g")
  case (PcRespond route data)
  with wf have "g_written g = []" by simp
  with PcRespond st show ?thesis by (cases route) (auto simp: respond_def)
next
  case PcDone
  with st show ?thesis using wf by auto
next
  case (PcPanicked p)
  with st show ?thesis using wf by auto
qed (use wf st in \<open>auto split: prod.splits option.splits\<close>)

lemma sched_step_wf:
  assumes wf: "wf_server sv"
  shows "wf_server (sched_step tr params0 i sv)"
proof (cases "i < length (threads sv)")
  case False
  with wf show ?thesis by (simp add: sched_step_def)
next
  case True
  obtain g' w' h where st: "thread_step tr params0 (threads sv ! i) (shared sv) = (g', w', h)"
    by (metis prod_cases3)
  have gi: "wf_written (g_pc (threads sv ! i)) (g_request (threads sv ! i)) (g_written (threads sv ! i))"
    and pre: "pre_handle (g_pc (threads sv ! i)) \<Longrightarrow> i \<notin> set (map fst (handled sv))"
    using wf True by (simp_all add: wf_server_def)
  note ts = thread_step_wf [OF gi st]
  have sv': "sched_step tr params0 i sv =
      sv\<lparr>threads := (threads sv)[i := g'], shared := w',
         handled := handled sv @ (case h of None \<Rightarrow> [] | Some P \<Rightarrow> [(i, P)])\<rparr>"
    using True st by (simp add: sched_step_def)
  show ?thesis
  proof (cases h)
    case None
    with wf ts True show ?thesis
      unfolding sv' wf_server_def by (auto simp: nth_list_update)
  next
    case (Some P)
    with ts pre have "i \<notin> set (map fst (handled sv))" by simp
    with Some wf ts True show ?thesis
      unfolding sv' wf_server_def by (auto simp: nth_list_update list_all_iff)
  qed
qed

lemma accept_conn_wf: "wf_server sv \<Longrightarrow> wf_server (accept_conn r sv)"
  by (auto simp: wf_server_def accept_conn_def nth_append list_all_iff)

lemma accept_conn_inv:
  fixes sv :: "('req, 'p, 'e, 'res, 's) server"
  assumes inv: "server_inv tr params0 rs w0 sv"
  shows "server_inv tr params0 (rs @ [r]) w0 (accept_conn r sv)"
proof -
  let ?g = "\<lparr>g_pc = PcStart, g_request = r, g_written = []\<rparr>
              :: ('req, 'p, 'e, 'res) goroutine"
  have len: "length (threads sv) = length rs" using inv by (simp add: server_inv_def)
  have old: "\<And>i P. (i, P) \<in> set (handled sv) \<Longrightarrow> i < length rs \<and> bound_params (Context tr) params0 (rs ! i) = Some P"
    using inv by (auto simp: server_inv_def)
  then have fresh: "length rs \<notin> set (map fst (handled sv))" by fastforce
  have th: "\<And>i. i < length rs \<Longrightarrow> g_inv tr params0 (rs ! i) (threads sv ! i)
        \<and> (pre_handle (g_pc (threads sv ! i)) \<longrightarrow> i \<notin> set (map fst (handled sv)))
        \<and> (\<not> pre_handle (g_pc (threads sv ! i)) \<longrightarrow>
             (i \<in> set (map fst (handled sv)) \<longleftrightarrow> bound_params (Context tr) params0 (rs ! i) \<noteq> None))"
    using inv by (simp add: server_inv_def)
  have all: "\<forall>i < length (rs @ [r]).
      g_inv tr params0 ((rs @ [r]) ! i) ((threads sv @ [?g]) ! i)
      \<and> (pre_handle (g_pc ((threads sv @ [?g]) ! i)) \<longrightarrow> i \<notin> set (map fst (handled sv)))
      \<and> (\<not> pre_handle (g_pc ((threads sv @ [?g]) ! i)) \<longrightarrow>
           (i \<in> set (map fst (handled sv)) \<longleftrightarrow> bound_params (Context tr) params0 ((rs @ [r]) ! i) \<noteq> None))"
  proof (intro allI impI)
    fix i assume "i < length (rs @ [r])"
    then consider "i < length rs" | "i = length rs" by fastforce
    then show "g_inv tr params0 ((rs @ [r]) ! i) ((threads sv @ [?g]) ! i)
      \<and> (pre_handle (g_pc ((threads sv @ [?g]) ! i)) \<longrightarrow> i \<notin> set (map fst (handled sv)))
      \<and> (\<not> pre_handle (g_pc ((threads sv @ [?g]) ! i)) \<longrightarrow>
           (i \<in> set (map fst (handled sv)) \<longleftrightarrow> bound_params (Context tr) params0 ((rs @ [r]) ! i) \<noteq> None))"
    proof cases
      case 1
      then show ?thesis using th [OF 1] len by (simp add: nth_append)
    next
      case 2
      then show ?thesis using fresh len by (simp add: nth_append g_inv_def)
    qed
  qed
  have hd: "\<forall>(i, P) \<in> set (handled sv). i < length (rs @ [r])
      \<and> bound_params (Context tr) params0 ((rs @ [r]) ! i) = Some P"
    using old by (fastforce simp: nth_append)
  show ?thesis
    using inv len all hd unfolding server_inv_def accept_conn_def by simp
qed

lemma start_server_wf: "wf_server (start_server rs w0)"
  by (simp add: wf_server_def start_server_def)

lemma dispatch_wf: "wf_server sv \<Longrightarrow> wf_server (dispatch tr params0 ev sv)"
  by (cases ev) (simp_all add: accept_conn_wf sched_step_wf)

lemma dispatch_inv:
  "server_inv tr params0 rs w0 sv \<Longrightarrow>
     server_inv tr params0 (rs @ accepted [ev]) w0 (dispatch tr params0 ev sv)"
  by (cases ev) (simp_all add: accept_conn_inv sched_step_inv)

section \<open>Reachable states are the runs of event lists\<close>

lemma dispatch_run_snoc [simp]:
  "dispatch_run tr params0 (evs @ [ev]) sv = dispatch tr params0 ev (dispatch_run tr params0 evs sv)"
  by (induction evs arbitrary: sv) simp_all

lemma accepted_append [simp]: "accepted (evs @ evs') = accepted evs @ accepted evs'"
  by (induction evs rule: accepted.induct) simp_all

lemma dispatch_Run_out [simp]:
  "\<not> i < length (threads sv) \<Longrightarrow> dispatch tr params0 (Run i) sv = sv"
  by (simp add: sched_step_def)

lemma dispatch_reach_step:
  "dispatch_reach tr params0 w0 rs sv \<Longrightarrow>
     dispatch_reach tr params0 w0 (rs @ accepted [ev]) (dispatch tr params0 ev sv)"
proof (cases ev)
  case (Run i)
  then show "dispatch_reach tr params0 w0 rs sv \<Longrightarrow> ?thesis"
    by (cases "i < length (threads sv)") (simp_all add: reach_run del: dispatch.simps)
qed (simp add: reach_accept del: dispatch.simps)

lemma dispatch_reach_append:
  "dispatch_reach tr params0 w0 rs sv \<Longrightarrow>
     dispatch_reach tr params0 w0 (rs @ accepted evs) (dispatch_run tr params0 evs sv)"
proof (induction evs arbitrary: rs sv)
  case (Cons ev evs)
  from dispatch_reach_step [OF Cons.prems, of ev] have
    "dispatch_reach tr params0 w0 (rs @ accepted [ev]) (dispatch tr params0 ev sv)" .
  from Cons.IH [OF this] show ?case by (cases ev) (simp_all del: dispatch.simps)
qed simp

lemma dispatch_run_reach:
  "dispatch_reach tr params0 w0 (accepted evs) (dispatch_run tr params0 evs (start_server [] w0))"
  using dispatch_reach_append [OF reach_init, of tr params0 w0 evs] by simp

lemma dispatch_reach_run:
  "dispatch_reach tr params0 w0 rs sv \<Longrightarrow>
     \<exists>evs. rs = accepted evs \<and> sv = dispatch_run tr params0 evs (start_server [] w0)"
proof (induction rule: dispatch_reach.induct)
  case reach_init
  have "[] = accepted [] \<and> start_server [] w0 = dispatch_run tr params0 [] (start_server [] w0)"
    by simp
  then show ?case by blast
next
  case (reach_accept rs sv r)
  then obtain evs where "rs = accepted evs" "sv = dispatch_run tr params0 evs (start_server [] w0)"
    by blast
  then have "rs @ [r] = accepted (evs @ [Accept r])
      \<and> dispatch tr params0 (Accept r) sv = dispatch_run tr params0 (evs @ [Accept r]) (start_server [] w0)"
    by simp
  then show ?case by blast
next
  case (reach_run rs sv i)
  then obtain evs where "rs = accepted evs" "sv = dispatch_run tr params0 evs (start_server [] w0)"
    by blast
  then have "rs = accepted (evs @ [Run i])
      \<and> dispatch tr params0 (Run i) sv = dispatch_run tr params0 (evs @ [Run i]) (start_server [] w0)"
    by simp
  then show ?case by blast
qed

lemma start_server_Nil: "start_server [] w0 = \<lparr>threads = [], shared = w0, handled = []\<rparr>"
  by (simp add: start_server_def)

lemma dispatch_reach_inv:
  "dispatch_reach tr params0 w0 rs sv \<Longrightarrow> server_inv tr params0 rs w0 sv"
proof (induction rule: dispatch_reach.induct)
  case reach_init
  show ?case by (rule start_server_inv)
next
  case (reach_accept rs sv r)
  then show ?case using dispatch_inv [of tr params0 rs w0 sv "Accept r"] by simp
next
  case (reach_run rs sv i)
  then show ?case using dispatch_inv [of tr params0 rs w0 sv "Run i"] by simp
qed

lemma dispatch_run_Run: "dispatch_run tr params0 (map Run sched) sv = sched_run tr params0 sched sv"
  by (induction sched arbitrary: sv) simp_all

lemma pc_rank_le_4: "pc_rank pc \<le> 4"
  by (cases pc) simp_all

section \<open>Properties\<close>

text \<open>
  C21. In every state the server reaches, accepting requests while earlier ones are in
  flight, the shared world is the handler run sequentially over the logged calls, in the
  order they happened; each goroutine calls the handler at most once and only with the
  parameters its own request, in arrival order, binds to; no writer holds more than one
  response. Serializability of C13 holds when requests arrive during the run.
\<close>

theorem dispatch_reach_serializable:
  assumes "dispatch_reach tr params0 w0 rs sv"
  shows "shared sv = run_states (Handle (Handler tr)) (map snd (handled sv)) w0
   \<and> distinct (map fst (handled sv))
   \<and> (\<forall>(i, P) \<in> set (handled sv). i < length rs \<and> bound_params (Context tr) params0 (rs ! i) = Some P)
   \<and> length (threads sv) = length rs \<and> (\<forall>i < length rs. length (g_written (threads sv ! i)) \<le> 1)"
proof -
  have inv: "server_inv tr params0 rs w0 sv" using assms by (rule dispatch_reach_inv)
  have "length (g_written (threads sv ! i)) \<le> 1" if "i < length rs" for i
    using inv that g_inv_written [of tr params0 "rs ! i" "threads sv ! i"] by (simp add: server_inv_def)
  with inv show ?thesis unfolding server_inv_def by blast
qed

text \<open>
  C22. The typing of a server state is kept by every sequence of connection arrivals and
  goroutine calls, from any well-typed state and whatever the routing, binding and handler
  functions return: a writer holds a \<open>Respond\<close> call only once its goroutine has
  returned, and then exactly one, carrying that goroutine's request and its route's
  \<open>Produces\<close>; the handler-call log names each started goroutine at most once, none that
  has not yet made its handler call, and none that has not been started.
\<close>

theorem dispatch_run_wf:
  "wf_server sv \<Longrightarrow> wf_server (dispatch_run tr params0 evs sv)"
  by (induction evs arbitrary: sv) (simp_all add: dispatch_wf del: dispatch.simps)

text \<open>
  C24. From any state the server reaches, a schedule that gives every request accepted so
  far four more turns ends all of them, in flight or not: each goroutine has returned or
  panicked, and the goroutines that called the handler are exactly those whose request
  binds. No accepted request is left unanswered by the operation except by the nil-route
  panic.
\<close>

theorem dispatch_fair_completes:
  assumes reach: "dispatch_reach tr params0 w0 rs sv"
    and fair: "\<forall>i < length rs. 4 \<le> count_list sched i"
  shows "let sv' = dispatch_run tr params0 (map Run sched) sv in
     (\<forall>i < length rs. g_pc (threads sv' ! i) = PcDone \<or> (\<exists>p. g_pc (threads sv' ! i) = PcPanicked p))
   \<and> set (map fst (handled sv')) = {i. i < length rs \<and> bound_params (Context tr) params0 (rs ! i) \<noteq> None}"
proof -
  let ?sv' = "dispatch_run tr params0 (map Run sched) sv"
  have "dispatch_reach tr params0 w0 (rs @ accepted (map Run sched)) ?sv'"
    using reach by (rule dispatch_reach_append)
  moreover have "accepted (map Run sched) = []" by (induction sched) simp_all
  ultimately have "dispatch_reach tr params0 w0 rs ?sv'" by (metis append_Nil2)
  then have inv: "server_inv tr params0 rs w0 ?sv'" by (rule dispatch_reach_inv)
  have len: "length (threads sv) = length rs"
    using dispatch_reach_inv [OF reach] by (simp add: server_inv_def)
  have fin: "pc_rank (g_pc (threads ?sv' ! i)) = 0" if i: "i < length rs" for i
  proof -
    have "4 \<le> count_list sched i" using fair i by blast
    moreover have "pc_rank (g_pc (threads ?sv' ! i)) \<le> pc_rank (g_pc (threads sv ! i)) - count_list sched i"
      using sched_run_rank [of i sv tr params0 sched] i len by (simp add: dispatch_run_Run)
    ultimately show ?thesis using pc_rank_le_4 [of "g_pc (threads sv ! i)"] by linarith
  qed
  have over: "\<not> pre_handle (g_pc (threads ?sv' ! i))" if "i < length rs" for i
    using fin [OF that] by (cases "g_pc (threads ?sv' ! i)") simp_all
  have "set (map fst (handled ?sv')) = {i. i < length rs \<and> bound_params (Context tr) params0 (rs ! i) \<noteq> None}"
    using inv over by (rule server_inv_handled_final)
  with fin show ?thesis by (simp add: Let_def pc_rank_0)
qed

theorem dispatch_reach_serializable_witness:
  "handled (dispatch_run demo_op [] [Accept ''a'', Run 0, Run 0, Accept ''bad'', Run 1, Run 0, Run 1]
      (start_server [] 0)) = [(0, ''a#ctx'')]
   \<and> shared (dispatch_run demo_op [] [Accept ''a'', Run 0, Run 0, Accept ''bad'', Run 1, Run 0, Run 1]
      (start_server [] 0)) = run_states (Handle (Handler demo_op)) [''a#ctx''] 0"
proof -
  have h: "handled (dispatch_run demo_op [] [Accept ''a'', Run 0, Run 0, Accept ''bad'', Run 1, Run 0, Run 1]
      (start_server [] 0)) = [(0, ''a#ctx'')]"
    by (simp add: start_server_def accept_conn_def sched_step_def demo_serve_defs)
  from dispatch_reach_serializable [OF dispatch_run_reach
      [of demo_op "[]" 0 "[Accept ''a'', Run 0, Run 0, Accept ''bad'', Run 1, Run 0, Run 1]"]] h
  show ?thesis by simp
qed

theorem dispatch_run_wf_witness:
  "wf_server (dispatch_run demo_op [] [Accept ''a'', Run 0, Accept ''bad'', Run 0, Run 1, Run 0, Run 0]
     (start_server [] 0))"
  using dispatch_run_wf [of "start_server [] 0" demo_op "[]"
      "[Accept ''a'', Run 0, Accept ''bad'', Run 0, Run 1, Run 0, Run 0]"]
  by (simp add: wf_server_def start_server_Nil del: dispatch_run.simps)

theorem dispatch_fair_completes_witness:
  "{i. i < length [''a'', ''bad''] \<and> bound_params (Context demo_op) [] ([''a'', ''bad''] ! i) \<noteq> None}
   = set (map fst (handled (dispatch_run demo_op [] (map Run [0, 0, 0, 0, 1, 1, 1, 1])
       (dispatch_run demo_op [] [Accept ''a'', Run 0, Accept ''bad''] (start_server [] 0)))))"
  using dispatch_fair_completes [OF dispatch_run_reach
      [of demo_op "[]" 0 "[Accept ''a'', Run 0, Accept ''bad'']"], of "[0, 0, 0, 0, 1, 1, 1, 1]"]
  by (simp add: Let_def del: dispatch_run.simps)

end
