(* ===== verification/Spec2Isabelle.thy ===== *)
theory Spec2Isabelle
  imports Tsa_Der Tsa_Clock Serve_Dispatch
begin

text \<open>
  \<^bold>\<open>Verification of rekor's time-stamp response operation.\<close>

  \<^bold>\<open>The program.\<close> The repository's source under \<open>src/\<close> is one generated Go file,
  \<^verbatim>\<open>src/pkg/generated/restapi/operations/timestamp/timestamp_response.go\<close>: the
  go-swagger operation for \<^verbatim>\<open>POST /api/v1/tsr\<close>. It declares the handler function type
  \<open>TimestampResponseHandlerFunc\<close> with its \<open>Handle\<close> method, the interface
  \<open>TimestampResponseHandler\<close>, the operation struct \<open>TimestampResponse\<close> (a middleware
  context and a handler) with its constructor \<open>NewTimestampResponse\<close>, and
  \<open>ServeHTTP\<close>, which asks the context for the matched route, replaces the request by
  the route's context request, binds the parameters, and either responds with the binding
  error or calls the handler and responds with what it returns. The handler it calls is
  the time-stamping engine of \<^verbatim>\<open>spec.md\<close> (RFC 3161), which is not among the sources:
  it is modelled from the spec, and every definition of it is marked \<open>spec_modelled\<close> in
  the manifest.

  \<^bold>\<open>Theories.\<close>
  \<^item> \<open>Prelude\<close>: type names (bytes, OIDs as DER content octets, 64-bit serials, times),
    the rule collections \<open>serve_simps\<close> and \<open>tsa_simps\<close>, runs of a state-passing
    handler (\<open>run_states\<close>), and word facts (no wrap-around below the maximum).
  \<^item> \<open>Middleware\<close>: the interface of the go-openapi runtime the glue calls:
    \<open>MatchedRoute\<close>, the \<open>Context\<close> record of \<open>RouteInfo\<close> and \<open>BindValidRequest\<close>
    (arbitrary functions: the library is not modelled), the record of a \<open>Respond\<close>
    call, and the nil-pointer panic.
  \<^item> \<open>Timestamp_Response\<close>: the Go file, declaration by declaration: the handler
    function type and \<open>HandlerFunc_Handle\<close> (lines 30--36), the interface and its
    implementation by a handler function (38--41), \<open>TimestampResponse\<close> and
    \<open>NewTimestampResponse\<close> (43--56), and \<open>ServeHTTP\<close> (58--72) with its parts
    \<open>route_request\<close> (59--62) and \<open>respond\<close> (the \<open>Respond\<close> calls at 65 and 70).
    \<open>ServeHTTP\<close> is a function of a \<open>serve_state\<close>: the caller's request \<open>*r\<close>, the
    response writer as the list of responses handed to \<open>Respond\<close>, and the world the
    handler closure captures. It returns the panic, if any, with the state reached:
    nothing is rolled back. \<open>serve_all\<close> is the HTTP server calling \<open>ServeHTTP\<close> once
    per request with a fresh writer.
  \<^item> \<open>Serve_Concurrent\<close>: the same function under the HTTP server's concurrency, one
    goroutine per request. \<open>thread_step\<close> is one call of \<open>ServeHTTP\<close> (routing,
    binding, the handler call, \<open>Respond\<close>) on a goroutine's control point
    (\<open>serve_pc\<close>) and locals (\<open>goroutine\<close>); \<open>sched_run\<close> runs a schedule of
    goroutine ids over the world the handler closure shares, logging each handler call.
  \<^item> \<open>Serve_Dispatch\<close>: the \<open>net/http\<close> server dispatching to the operation while
    requests keep arriving. An event (\<open>http_event\<close>) accepts a request, starting a
    goroutine at the top of \<open>ServeHTTP\<close> (line 58) with a fresh writer
    (\<open>accept_conn\<close>), or makes one call of a running goroutine (\<open>dispatch\<close>); the
    reachable states are the inductive predicate \<open>dispatch_reach\<close>, equal to the runs of
    executable event lists (\<open>dispatch_run_reach\<close>, \<open>dispatch_reach_run\<close>). \<open>wf_server\<close>
    is the typing of a server state that holds whatever the context returns.
  \<^item> \<open>Tsp_Types\<close>: the data model of spec section 3 (\<open>TimeStampReq\<close>, \<open>TSTInfo\<close>,
    \<open>SignedEnvelope\<close>, \<open>TimeStampResp\<close>, PKIStatus and PKIFailureInfo), the
    authority's configuration, the signing identity, and the codec interface.
  \<^item> \<open>Validator\<close> (spec 4.2), \<open>Serial_Allocator\<close> (4.3), \<open>Token\<close> (4.4, 4.5 and
    the policy negotiation of section 9): one definition per operation.
  \<^item> \<open>Tsa_Engine\<close>: the lifecycle state machine of section 4.6 (\<open>tsr_step\<close>, run with
    fuel by \<open>tsr_run\<close>), the direct pipeline of section 2 (\<open>process_request\<close>), the
    handler \<open>tsa_handler\<close>, and their world: serial allocator, clock reading, signing
    identity, and the log of payloads given to the signing capability.
  \<^item> \<open>Tsa_Service\<close>: the engine installed in the generated operation
    (\<open>tsa_operation\<close>), and the claims that follow a request through both.
  \<^item> \<open>Der\<close>: the DER layer of the request codec (spec 4.1): big-endian naturals
    (\<open>be_bytes\<close>, \<open>be_val\<close>), definite lengths (\<open>encode_len\<close>, \<open>decode_len\<close>,
    short and long form, minimal, at most 126 length octets), elements (\<open>encode_tlv\<close>,
    \<open>der_tlv\<close>), INTEGER contents (\<open>enc_int\<close>, \<open>dec_int\<close>, the two-octet check
    \<open>int_minimal\<close>), OIDs and BOOLEAN DEFAULT FALSE, and parsers returning the rest of
    the input. Each encoder has its decoder's two laws: decoding an encoding gives the
    value back, and an accepted input is the encoding of its value;
    \<open>der_integer_check_canonical\<close> shows the two-octet check accepts exactly the
    octet strings that re-encode to themselves.
  \<^item> \<open>Tsp_Codec\<close>: the TimeStampReq encoder \<open>enc_req\<close> and decoder \<open>dec_req\<close>,
    with AlgorithmIdentifier, MessageImprint, the optional policy and nonce, certReq, and
    the \<open>[0] IMPLICIT\<close> extension list (decoded by \<open>dec_ext_list\<close>, which
    terminates because every element consumes octets). \<open>tsp_request_roundtrip\<close> and
    \<open>tsp_request_canonical\<close> make decoding and encoding inverse bijections between
    well-formed requests and accepted inputs; \<open>ex_req\<close> is checked against its bytes.
  \<^item> \<open>Gen_Time\<close>: GeneralizedTime (\<open>YYYYMMDDhhmmssZ\<close>) of a time in seconds since
    1970: the Gregorian calendar by walking years and months (\<open>split_years\<close>,
    \<open>split_months\<close>, terminating by measures), its inverse \<open>days_of_civil\<close>,
    fixed-width digits, \<open>enc_gentime\<close> and \<open>dec_gentime\<close>, inverse in both directions
    below \<open>gentime_limit\<close> (year 10000), with test vectors.
  \<^item> \<open>Token_Codec\<close>: the TSTInfo the signer signs, \<open>enc_tst\<close> and \<open>dec_tst\<close>, built
    from two field combinators, a mandatory element \<open>dec_with\<close> and an optional one
    \<open>dec_opt_with\<close>, each with a round-trip and a canonical law; the serial number as an
    INTEGER of the 64-bit word, Accuracy in microseconds split into seconds, millis and
    micros. \<open>tst_roundtrip\<close> and \<open>tst_canonical\<close> are the token's laws; \<open>ex_tst\<close> is
    checked against its 100 octets.
  \<^item> \<open>Response_Codec\<close>: \<open>enc_resp\<close> and \<open>dec_resp\<close> for TimeStampResp: PKIStatusInfo
    with the status INTEGER and the failInfo BIT STRING of DER named bits (\<open>enc_bit\<close>,
    whose unused-bit count and last octet \<open>push_bit\<close> are inverted by \<open>dec_bit\<close> for
    every bit number), and the token as a CMS ContentInfo of a reduced SignedData
    (\<open>enc_env\<close>, \<open>dec_env\<close>; the certificate list split by \<open>dec_tlv_list\<close>, which
    terminates by length). \<open>resp_roundtrip\<close> and \<open>resp_canonical\<close>: decoding inverts
    encoding on well-formed responses, and accepted inputs are canonical.
  \<^item> \<open>Tsa_Der\<close>: the DER codec installed in the deployed operation (\<open>der_codec\<close>:
    \<open>dec_req\<close> decodes, \<open>enc_tst\<close> is what is signed), and the claims that join the
    codec to \<open>ServeHTTP\<close>.
  \<^item> \<open>Tsa_Concurrent\<close>: concurrent requests inside the engine (spec 5). Each request is
    a goroutine of \<open>Serve_Concurrent\<close> whose handler call runs the lifecycle stages of
    \<open>Tsa_Engine\<close> one at a time (\<open>tsa_gstep\<close>) over the shared world; a schedule
    interleaves all of them (\<open>tsa_sched_run\<close>), with ghost logs of the serials allocated
    and issued. The allocator's increment and the signer are each one atomic stage.
  \<^item> \<open>Tsa_Clock\<close>: the clock source of spec 6 in the concurrent model: events are a
    goroutine step or a tick advancing the clock (\<open>clock_tick\<close>, never backward), and
    ghost logs record each token's \<open>(genTime, serial)\<close> stamp when it is built and when
    it is issued (\<open>tsa_clk_step\<close>, invariant \<open>clk_inv\<close>).

  \<^bold>\<open>What is proved.\<close> Claims C1--C6 are about the generated code alone, for every
  middleware context and every handler: a binding failure never reaches the handler (C1);
  a bound request reaches it exactly once with its parameters (C2); \<open>*r\<close> is replaced by
  the route's request and every response refers to it (C3); a call that returns has
  written exactly one response (C4); a nil route panics after the handler has run (C5,
  a finding); serving a sequence of requests refines running the handler on the bound
  parameters in order (C6). Claims C7--C12 follow the engine through the operation: tokens
  copy the imprint and nonce and respect the signer's validity window (C7); serial numbers
  are strictly increasing over any sequence of requests (C8); rejected requests change no
  state (C9); an expired signer yields systemFailure without signing (C10);
  grantedWithMods exactly on policy substitution (C11); the counter never wraps (C12).
  Claims C13--C14 are about the generated code under concurrency: under every schedule
  each goroutine calls the handler at most once, with its own bound parameters, each writer
  gets at most one response, and the shared world is the handler run in sequence over the
  logged calls (C13, by an invariant \<open>server_inv\<close> preserved by every step; the last
  part rests on the handler call being one atomic step, an assumption of the model, not a
  guarantee of Go); under a fair schedule every goroutine ends and exactly the bound
  requests reach the handler (C14, by the rank \<open>pc_rank\<close>). Claims C15--C16 join the
  codec to the operation: a well-formed request's encoding is served exactly as the
  request itself (C15); a truncated or padded encoding gets badDataFormat with no change
  of state (C16). Claims C17--C18 return to the generated code under concurrency: every
  response a goroutine writes is its own, with the binding error exactly when its binding
  failed (C17); under a fair schedule a goroutine panics exactly when its route is nil and
  otherwise returns (C18). C19 closes the wire: every response the operation writes with
  the DER codec decodes from its encoding back to itself, the token's signed octets
  decoding to the token, under a configuration of valid identifiers and DER certificates
  and a clock before year 10000 (\<open>der_config_ok\<close>). C20 is the serial allocator under
  concurrent requests: however the engine stages of many requests interleave, serials are
  allocated in strictly increasing order, none is issued twice, and each issued serial was
  allocated (by the invariant \<open>tsa_inv\<close> on the serial each in-flight signing stage
  holds). \<open>tsa_issue_order_example\<close> shows issuance order itself is not ordered: a
  finding against spec 8. C21, C22 and C24 are about the generated code under the HTTP
  server's dispatch, requests arriving while others are in flight: in every reachable state
  the world is the handler run in sequence over the logged calls, each with its own
  request's parameters, and no writer holds two responses (C21, from \<open>server_inv\<close> for
  the requests accepted so far, by rule induction on \<open>dispatch_reach\<close>); any sequence of
  arrivals and calls keeps a well-typed state well-typed, for any context and handler
  (C22); from any reachable state four more turns per request end every accepted request
  (C24). C23 adds the clock: whatever the interleaving and however the clock advances,
  tokens are built with non-decreasing genTime and increasing serials, so equal genTimes
  are ordered by serial, and each issued token is one of them, issued once;
  \<open>tsa_gentime_order_example\<close> shows a token with an earlier genTime issued after one
  with a later genTime, a finding against spec 5. C23 depends on a design choice of the
  model: the \<open>Building\<close> stage reads the clock, increments the counter and builds the
  token in one atomic step, where spec 5 requires only the increment to be atomic; with
  the clock read in a stage of its own, build order and genTime order could differ. C25:
  in every interleaving the signing capability receives exactly one payload per issued
  token, and each is the encoding of a token built from a request that passed validation,
  with a genTime inside the signing identity's validity window (the invariant
  \<open>sig_inv\<close> on each engine state: \<open>eng_valid\<close>).

  Two lemmas check that the model's two renderings of one thing agree:
  \<open>thread_run_ServeHTTP\<close> (four calls of \<open>thread_step\<close> are \<open>ServeHTTP\<close>) and
  \<open>tsr_run_process_request\<close> (the lifecycle run from \<open>Received\<close> is the pipeline);
  they are consistency checks of the model, not claims about the program.

  \<^bold>\<open>Bounds and fuel.\<close> Serials are 64-bit words: \<open>next_serial\<close> refuses at
  \<open>2^64 - 1\<close> instead of wrapping, and \<open>allocate_n_length\<close> shows that below it every
  call issues. The lifecycle is run with fuel 4, its rank from \<open>Received\<close>;
  \<open>tsr_run_terminal\<close> proves that fuel at least the rank always reaches a terminal state,
  so no response is lost to fuel. A goroutine of \<open>Serve_Concurrent\<close> makes at most four
  calls (\<open>pc_rank\<close> starts at 4 and every call lowers it), so four turns per goroutine
  make a schedule fair; \<open>thread_run_ServeHTTP\<close> runs one goroutine with exactly that fuel. DER lengths are
  bounded by \<open>der_bound\<close> (\<open>256^126\<close>, the long form's limit): the round trip holds
  for encodings shorter than that, which \<open>small_lt_der_bound\<close> discharges for any
  input under four gigabytes. GeneralizedTime has a four-digit year, so times are encoded
  exactly below \<open>gentime_limit\<close>, the first second of year 10000
  (\<open>gentime_limit_ge\<close> puts it above 8030 years of 365 days); every decoded time lies below
  it (\<open>dec_gentime_bound\<close>).

  \<^bold>\<open>Not modelled.\<close> The go-openapi library (routing, binding, content negotiation and
  the bytes \<open>Respond\<close> writes) is an interface of arbitrary functions that never panic;
  the library's own \<open>BindValidRequest\<close> reads the route it is given, so with it a nil
  route panics already at line 64 and C5's case of a handler that ran before the panic
  needs a binder that tolerates a nil route; the generated
  parameter type is a type variable, its binder part of the context. The engine claims
  C9--C15 hold for any codec (\<open>tsp_codec\<close>); the DER codec joins them in C19, C20 and
  C23. The CMS SignedData is reduced to what the signer of the spec produces (version,
  encapsulated TSTInfo, certificates, signature algorithm and signature): no
  digestAlgorithms, signer identifier or signed attributes, which the spec does not
  describe; the status has no free-text string; tags are single octets. The license
  header, package clause and imports of the Go file (lines 1--29) declare nothing. Of the
  \<open>net/http\<close> server only its dispatch is modelled, one goroutine per accepted request
  with its own writer; connection handling, timeouts, keep-alive and the bytes on the
  wire are the library's. The engine's clock ticks only between stages: a stage reads it
  once. The generated sibling file with \<open>TimestampResponseParams\<close> and its binder is not
  under \<open>src/\<close> and the spec does not describe it (it names the binding layer an external
  collaborator), so it stays the parameter type and \<open>BindValidRequest\<close> of the context.
\<close>

end
